theory Spec2Isabelle
  imports Complex_Main "HOL-Library.Log_Nat"
begin

section \<open>JavaScript values of the compiled-script runtime\<close>

text \<open>
  The functions of \<^verbatim>\<open>src/compiler/execute.js\<close> work on JavaScript scalars. A number is
  \<^verbatim>\<open>NaN\<close>, an infinity or a finite value of binary64, carried as the rational it denotes. The
  two zeros of binary64 are one value here: no operation below tells them apart (\<^verbatim>\<open>-0 === 0\<close>,
  \<^verbatim>\<open>-0 < 0\<close> is false, \<^verbatim>\<open>'' + -0\<close> is \<^verbatim>\<open>"0"\<close>, \<^verbatim>\<open>-0 | 0\<close> is \<^verbatim>\<open>0\<close>). Every operation that
  rounds in binary64 (reading a numeric literal, \<^verbatim>\<open>*\<close>, \<^verbatim>\<open>/\<close>, \<^verbatim>\<open>+\<close>) rounds here, with its overflow
  to an infinity and its underflow to zero.
  A string is a list of characters read as code points U+0000 to U+00FF.
\<close>

datatype jsnum = NaN | PInf | NInf | Fin rat

subsection \<open>Rounding to binary64\<close>

text \<open>The power \<open>2 ^ e\<close> for an integer \<open>e\<close> of either sign.\<close>

definition pow2 :: "int \<Rightarrow> rat" where
  "pow2 e = (if 0 \<le> e then 2 ^ nat e else 1 / 2 ^ nat (- e))"

text \<open>
  The binary exponent of a positive rational: the \<open>e\<close> with \<open>2 ^ e \<le> q < 2 ^ (e + 1)\<close>. The
  difference of the bit lengths of the numerator and the denominator is \<open>e\<close> or \<open>e + 1\<close>.
\<close>

definition binaryExponent :: "rat \<Rightarrow> int" where
  "binaryExponent q =
     (case quotient_of q of
        (a, b) \<Rightarrow> (let d = bitlen a - bitlen b in if pow2 d \<le> q then d else d - 1))"

text \<open>The nearest integer, the even one of the two when the number lies halfway.\<close>

definition roundTiesToEven :: "rat \<Rightarrow> int" where
  "roundTiesToEven x =
     (let f = floor x; d = x - of_int f
      in if d < 1 / 2 then f else if 1 / 2 < d then f + 1 else if even f then f else f + 1)"

text \<open>
  The spacing of the binary64 values around \<open>q\<close>: 53 significant bits, and the least exponent
  \<open>-1022\<close>, below which the values are the multiples of \<open>2 ^ -1074\<close>.
\<close>

definition ulpOf :: "rat \<Rightarrow> rat" where
  "ulpOf q = pow2 (max (binaryExponent \<bar>q\<bar>) (- 1022) - 52)"

text \<open>
  The number value of a real: the nearest binary64 value, ties to even, and the infinity of its
  sign when that rounding reaches \<open>2 ^ 1024\<close>.
\<close>

definition round64 :: "rat \<Rightarrow> jsnum" where
  "round64 q =
     (if q = 0 then Fin 0
      else
        let r = of_int (roundTiesToEven (q / ulpOf q)) * ulpOf q
        in if pow2 1024 \<le> \<bar>r\<bar> then (if 0 < q then PInf else NInf) else Fin r)"

text \<open>The rationals that are finite values of binary64: the ones rounding leaves alone.\<close>

definition isBinary64 :: "rat \<Rightarrow> bool" where
  "isBinary64 q = (round64 q = Fin q)"

datatype jsval = JUndefined | JNull | JBool bool | JNum jsnum | JStr string

datatype jstype = TUndefined | TObject | TBoolean | TNumber | TString

fun typeof :: "jsval \<Rightarrow> jstype" where
  "typeof JUndefined = TUndefined"
| "typeof JNull = TObject"
| "typeof (JBool b) = TBoolean"
| "typeof (JNum n) = TNumber"
| "typeof (JStr s) = TString"

fun isNaN :: "jsnum \<Rightarrow> bool" where
  "isNaN NaN = True"
| "isNaN n = False"

fun js_neg :: "jsnum \<Rightarrow> jsnum" where
  "js_neg NaN = NaN"
| "js_neg PInf = NInf"
| "js_neg NInf = PInf"
| "js_neg (Fin q) = Fin (- q)"

text \<open>\<^verbatim>\<open>a === b\<close> on two numbers: \<^verbatim>\<open>NaN\<close> equals nothing, not even itself.\<close>

definition num_strict_eq :: "jsnum \<Rightarrow> jsnum \<Rightarrow> bool" where
  "num_strict_eq a b = (\<not> isNaN a \<and> \<not> isNaN b \<and> a = b)"

text \<open>\<^verbatim>\<open>a === b\<close> on two scalars, as \<^verbatim>\<open>Array.prototype.indexOf\<close> applies it.\<close>

fun strict_eq :: "jsval \<Rightarrow> jsval \<Rightarrow> bool" where
  "strict_eq (JNum a) (JNum b) = num_strict_eq a b"
| "strict_eq a b = (a = b)"

subsection \<open>Strings: white space, case, numeric literals\<close>

text \<open>
  The white space that \<^verbatim>\<open>String.prototype.trim\<close> and the string-to-number conversion skip:
  TAB, LF, VT, FF, CR, SP and NBSP among the code points modelled.
\<close>

definition isStrWhiteSpaceChar :: "char \<Rightarrow> bool" where
  "isStrWhiteSpaceChar c =
     (let n = (of_char c :: nat)
      in n = 9 \<or> n = 10 \<or> n = 11 \<or> n = 12 \<or> n = 13 \<or> n = 32 \<or> n = 160)"

definition trim :: "string \<Rightarrow> string" where
  "trim s = rev (dropWhile isStrWhiteSpaceChar (rev (dropWhile isStrWhiteSpaceChar s)))"

text \<open>
  \<^verbatim>\<open>String.prototype.toLowerCase\<close> on the code points modelled: the capital letters are
  U+0041 to U+005A and U+00C0 to U+00DE without U+00D7, and the small letter is 32 further,
  which is the same code with bit 5 set.
\<close>

definition toLowerChar :: "char \<Rightarrow> char" where
  "toLowerChar c =
     (let n = (of_char c :: nat)
      in if (65 \<le> n \<and> n \<le> 90) \<or> (192 \<le> n \<and> n \<le> 222 \<and> n \<noteq> 215)
         then (case c of Char b0 b1 b2 b3 b4 b5 b6 b7 \<Rightarrow> Char b0 b1 b2 b3 b4 True b6 b7)
         else c)"

definition toLowerCase :: "string \<Rightarrow> string" where
  "toLowerCase s = map toLowerChar s"

definition isDigit :: "char \<Rightarrow> bool" where
  "isDigit c = (48 \<le> (of_char c :: nat) \<and> (of_char c :: nat) \<le> 57)"

text \<open>The value of a character as a digit in the given radix, when it is one.\<close>

definition radixDigit :: "nat \<Rightarrow> char \<Rightarrow> nat option" where
  "radixDigit radix c =
     (let n = (of_char c :: nat);
          d = (if 48 \<le> n \<and> n \<le> 57 then n - 48
               else if 97 \<le> n \<and> n \<le> 102 then n - 87
               else if 65 \<le> n \<and> n \<le> 70 then n - 55
               else radix)
      in if d < radix then Some d else None)"

fun radixValue :: "nat \<Rightarrow> nat \<Rightarrow> string \<Rightarrow> nat option" where
  "radixValue radix acc [] = Some acc"
| "radixValue radix acc (c # cs) =
     (case radixDigit radix c of
        None \<Rightarrow> None
      | Some d \<Rightarrow> radixValue radix (acc * radix + d) cs)"

definition digitsValue :: "nat \<Rightarrow> string \<Rightarrow> nat option" where
  "digitsValue radix ds = (if ds = [] then None else radixValue radix 0 ds)"

text \<open>
  \<^verbatim>\<open>0x\<close>, \<^verbatim>\<open>0o\<close> and \<^verbatim>\<open>0b\<close> literals (no sign is allowed before them): the integer written,
  before it is rounded.
\<close>

definition parseNonDecimal :: "string \<Rightarrow> nat option" where
  "parseNonDecimal s =
     (case s of
        z # x # ds \<Rightarrow>
          if z \<noteq> CHR ''0'' then None
          else if x = CHR ''x'' \<or> x = CHR ''X'' then digitsValue 16 ds
          else if x = CHR ''o'' \<or> x = CHR ''O'' then digitsValue 8 ds
          else if x = CHR ''b'' \<or> x = CHR ''B'' then digitsValue 2 ds
          else None
      | _ \<Rightarrow> None)"

definition pow10 :: "int \<Rightarrow> rat" where
  "pow10 e = (if 0 \<le> e then 10 ^ nat e else 1 / 10 ^ nat (- e))"

text \<open>The exponent part of a decimal literal; an absent one counts as \<open>0\<close>.\<close>

definition parseExponent :: "string \<Rightarrow> int option" where
  "parseExponent s =
     (case s of
        [] \<Rightarrow> Some 0
      | c # r \<Rightarrow>
          if c = CHR ''e'' \<or> c = CHR ''E'' then
            (case r of
               [] \<Rightarrow> None
             | d # r' \<Rightarrow>
                 if d = CHR ''+'' then map_option int (digitsValue 10 r')
                 else if d = CHR ''-'' then map_option (\<lambda>n. - int n) (digitsValue 10 r')
                 else map_option int (digitsValue 10 r))
          else None)"

text \<open>The value of a run of decimal digits (\<open>0\<close> for the empty run).\<close>

definition decimalValue :: "string \<Rightarrow> nat" where
  "decimalValue ds = foldl (\<lambda>acc c. acc * 10 + (of_char c - 48)) 0 ds"

text \<open>
  An unsigned decimal literal: \<^verbatim>\<open>Infinity\<close>, or digits with an optional fraction and an optional
  exponent. Its number value is the mathematical value of the literal, rounded once.
\<close>

definition parseUnsignedDecimal :: "string \<Rightarrow> jsnum" where
  "parseUnsignedDecimal s =
     (if s = ''Infinity'' then PInf
      else
        let ip = takeWhile isDigit s;
            r1 = dropWhile isDigit s;
            hasDot = (r1 \<noteq> [] \<and> hd r1 = CHR ''.'');
            fp = (if hasDot then takeWhile isDigit (tl r1) else []);
            r2 = (if hasDot then dropWhile isDigit (tl r1) else r1)
        in if ip = [] \<and> fp = [] then NaN
           else
             (case parseExponent r2 of
                None \<Rightarrow> NaN
              | Some e \<Rightarrow>
                  round64 ((of_nat (decimalValue ip)
                            + of_nat (decimalValue fp) / 10 ^ length fp)
                           * pow10 e)))"

definition parseDecimal :: "string \<Rightarrow> jsnum" where
  "parseDecimal s =
     (case s of
        [] \<Rightarrow> NaN
      | c # r \<Rightarrow>
          if c = CHR ''+'' then parseUnsignedDecimal r
          else if c = CHR ''-'' then js_neg (parseUnsignedDecimal r)
          else parseUnsignedDecimal s)"

text \<open>
  The conversion of a string to a number: white space is trimmed, the empty string is \<open>0\<close>,
  a numeric literal is its value rounded to binary64 and everything else is \<^verbatim>\<open>NaN\<close>.
\<close>

definition StringToNumber :: "string \<Rightarrow> jsnum" where
  "StringToNumber s =
     (let t = trim s
      in if t = [] then Fin 0
         else (case parseNonDecimal t of
                 Some n \<Rightarrow> round64 (of_nat n)
               | None \<Rightarrow> parseDecimal t))"

text \<open>The unary plus of the source, \<^verbatim>\<open>+v\<close>.\<close>

fun ToNumber :: "jsval \<Rightarrow> jsnum" where
  "ToNumber JUndefined = NaN"
| "ToNumber JNull = Fin 0"
| "ToNumber (JBool b) = (if b then Fin 1 else Fin 0)"
| "ToNumber (JNum n) = n"
| "ToNumber (JStr s) = StringToNumber s"

subsection \<open>Conversion to string\<close>

function natToString :: "nat \<Rightarrow> string" where
  "natToString n =
     (if n < 10 then [''0123456789'' ! n]
      else natToString (n div 10) @ [''0123456789'' ! (n mod 10)])"
  by pat_completeness auto
termination
  by (relation "measure id") auto

definition intToString :: "int \<Rightarrow> string" where
  "intToString i = (if i < 0 then CHR ''-'' # natToString (nat (- i)) else natToString (nat i))"

definition isSafeInteger :: "rat \<Rightarrow> bool" where
  "isSafeInteger q = (of_int (floor q) = q \<and> \<bar>q\<bar> \<le> 2 ^ 53)"

text \<open>
  The string form of a number. An integer of magnitude up to \<open>2 ^ 53\<close> prints as its decimal
  digits. Every other finite number prints as the shortest decimal that reads back as the same
  binary64 value, which depends on the binary64 representation: that part of the host's
  \<^verbatim>\<open>Number.prototype.toString\<close> is the parameter \<open>fracStr\<close>.
\<close>

fun NumberToString :: "(rat \<Rightarrow> string) \<Rightarrow> jsnum \<Rightarrow> string" where
  "NumberToString fracStr NaN = ''NaN''"
| "NumberToString fracStr PInf = ''Infinity''"
| "NumberToString fracStr NInf = ''-Infinity''"
| "NumberToString fracStr (Fin q) =
     (if isSafeInteger q then intToString (floor q) else fracStr q)"

text \<open>The string concatenation of the source, \<^verbatim>\<open>'' + v\<close>.\<close>

fun ToString :: "(rat \<Rightarrow> string) \<Rightarrow> jsval \<Rightarrow> string" where
  "ToString fracStr JUndefined = ''undefined''"
| "ToString fracStr JNull = ''null''"
| "ToString fracStr (JBool b) = (if b then ''true'' else ''false'')"
| "ToString fracStr (JNum n) = NumberToString fracStr n"
| "ToString fracStr (JStr s) = s"

section \<open>Value semantics\<close>

text \<open>
  \<^verbatim>\<open>const isWhiteSpace = val => {
    return val === null || (typeof val === 'string' && val.trim().length === 0);
};\<close>
\<close>

fun isWhiteSpace :: "jsval \<Rightarrow> bool" where
  "isWhiteSpace JNull = True"
| "isWhiteSpace (JStr s) = (length (trim s) = 0)"
| "isWhiteSpace v = False"

text \<open>
  \<^verbatim>\<open>const compareEqual = (v1, v2) => {
    let n1 = +v1;
    let n2 = +v2;
    if (n1 === 0 && isWhiteSpace(v1)) {
        n1 = NaN;
    } else if (n2 === 0 && isWhiteSpace(v2)) {
        n2 = NaN;
    }
    if (isNaN(n1) || isNaN(n2)) {
        const s1 = ('' + v1).toLowerCase();
        const s2 = ('' + v2).toLowerCase();
        return s1 === s2;
    }
    return n1 === n2;
};\<close>
  The two assignments of the \<^verbatim>\<open>if\<close>/\<^verbatim>\<open>else if\<close> are the two components of \<open>blankToNaN\<close>:
  the second operand is looked at only when the first one was left alone.
\<close>

definition blankToNaN :: "jsval \<Rightarrow> jsval \<Rightarrow> jsnum \<times> jsnum" where
  "blankToNaN v1 v2 =
     (let n1 = ToNumber v1; n2 = ToNumber v2
      in if num_strict_eq n1 (Fin 0) \<and> isWhiteSpace v1 then (NaN, n2)
         else if num_strict_eq n2 (Fin 0) \<and> isWhiteSpace v2 then (n1, NaN)
         else (n1, n2))"

definition compareEqual :: "(rat \<Rightarrow> string) \<Rightarrow> jsval \<Rightarrow> jsval \<Rightarrow> bool" where
  "compareEqual fracStr v1 v2 =
     (case blankToNaN v1 v2 of
        (n1, n2) \<Rightarrow>
          if isNaN n1 \<or> isNaN n2 then
            (let s1 = toLowerCase (ToString fracStr v1);
                 s2 = toLowerCase (ToString fracStr v2)
             in s1 = s2)
          else num_strict_eq n1 n2)"

text \<open>
  The comparison as the specification words it. An operand is blank when it is \<^verbatim>\<open>null\<close> or a
  string of white space only (the empty string among them). Each operand is coerced to a number
  on its own; a blank operand that coerces to zero counts as not-a-number; the operands are
  compared as lower-cased strings as soon as one of them is not a number, and as numbers
  otherwise.
\<close>

fun blank :: "jsval \<Rightarrow> bool" where
  "blank JNull = True"
| "blank (JStr s) = list_all isStrWhiteSpaceChar s"
| "blank v = False"

definition coerceOperand :: "jsval \<Rightarrow> jsnum" where
  "coerceOperand v = (if ToNumber v = Fin 0 \<and> blank v then NaN else ToNumber v)"

definition compareEqual_spec :: "(rat \<Rightarrow> string) \<Rightarrow> jsval \<Rightarrow> jsval \<Rightarrow> bool" where
  "compareEqual_spec fracStr a b =
     (if coerceOperand a = NaN \<or> coerceOperand b = NaN
      then toLowerCase (ToString fracStr a) = toLowerCase (ToString fracStr b)
      else coerceOperand a = coerceOperand b)"

section \<open>List operations\<close>

text \<open>
  \<^verbatim>\<open>x | 0\<close>: the conversion to a signed 32-bit integer. A number that is not finite gives \<open>0\<close>;
  a finite one is truncated toward zero and then reduced modulo \<open>2 ^ 32\<close> into the range from
  \<open>- 2 ^ 31\<close> to \<open>2 ^ 31 - 1\<close>.
\<close>

definition js_truncate :: "rat \<Rightarrow> int" where
  "js_truncate q = (if q < 0 then - floor (- q) else floor q)"

fun ToInt32 :: "jsnum \<Rightarrow> int" where
  "ToInt32 NaN = 0"
| "ToInt32 PInf = 0"
| "ToInt32 NInf = 0"
| "ToInt32 (Fin q) =
     (let m = js_truncate q mod 2 ^ 32 in if 2 ^ 31 \<le> m then m - 2 ^ 32 else m)"

text \<open>\<^verbatim>\<open>n || 0\<close> on a number: \<^verbatim>\<open>NaN\<close> and zero are the falsy numbers.\<close>

definition orZero :: "jsnum \<Rightarrow> jsnum" where
  "orZero n = (if isNaN n \<or> n = Fin 0 then Fin 0 else n)"

text \<open>
  \<^verbatim>\<open>const listIndex = (index, length) => {
    if (typeof index !== 'number') {
        if (index === 'last') {
            if (length > 0) {
                return length - 1;
            }
            return -1;
        } else if (index === 'random' || index === '*') {
            if (length > 0) {
                return (Math.random() * length) | 0;
            }
            return -1;
        }
        index = +index || 0;
    }
    index = index | 0;
    if (index < 1 || index > length) {
        return -1;
    }
    return index - 1;
};\<close>
  The draw of \<^verbatim>\<open>Math.random()\<close>, a binary64 number from \<open>0\<close> up to but not including \<open>1\<close>, is
  the parameter \<open>rnd\<close>; its product with the length is rounded. The length is the length of an
  array, a natural number. The early returns are the left injections; on the right is the
  number that reaches \<^verbatim>\<open>index | 0\<close>.
\<close>

definition listIndex :: "rat \<Rightarrow> jsval \<Rightarrow> nat \<Rightarrow> int" where
  "listIndex rnd index len =
     (let r =
        (if typeof index \<noteq> TNumber then
           if strict_eq index (JStr ''last'') then
             Inl (if len > 0 then int len - 1 else - 1)
           else if strict_eq index (JStr ''random'') \<or> strict_eq index (JStr ''*'') then
             Inl (if len > 0 then ToInt32 (round64 (rnd * of_nat len)) else - 1)
           else Inr (orZero (ToNumber index))
         else Inr (ToNumber index))
      in case r of
           Inl early \<Rightarrow> early
         | Inr n \<Rightarrow>
             (let i = ToInt32 n
              in if i < 1 \<or> i > int len then - 1 else i - 1))"

text \<open>
  Reading \<^verbatim>\<open>list[index]\<close> and writing \<^verbatim>\<open>list[index] = value\<close> on an array. A read outside the
  array gives \<^verbatim>\<open>undefined\<close>. A write at a negative index creates a property that is no element
  and leaves elements and length alone; a write past the end extends the array, the holes
  reading as \<^verbatim>\<open>undefined\<close>.
\<close>

definition arrayGet :: "jsval list \<Rightarrow> int \<Rightarrow> jsval" where
  "arrayGet xs i = (if 0 \<le> i \<and> i < int (length xs) then xs ! nat i else JUndefined)"

definition arraySet :: "jsval list \<Rightarrow> int \<Rightarrow> jsval \<Rightarrow> jsval list" where
  "arraySet xs i v =
     (if i < 0 then xs
      else if i < int (length xs) then xs[nat i := v]
      else xs @ replicate (nat i - length xs) JUndefined @ [v])"

text \<open>
  \<^verbatim>\<open>Array.prototype.splice(start, deleteCount, ...items)\<close>: a negative start counts from the
  end, and both the start and the count are clamped to the array.
\<close>

definition splice :: "jsval list \<Rightarrow> int \<Rightarrow> nat \<Rightarrow> jsval list \<Rightarrow> jsval list" where
  "splice xs start deleteCount items =
     (let len = int (length xs);
          actualStart = (if start < 0 then max (len + start) 0 else min start len);
          actualDeleteCount = min (int deleteCount) (len - actualStart)
      in take (nat actualStart) xs @ items @ drop (nat (actualStart + actualDeleteCount)) xs)"

text \<open>
  \<^verbatim>\<open>const listGet = (list, idx) => {
    const index = listIndex(idx, list.length);
    if (index === -1) {
        return '';
    }
    return list[index];
};\<close>
\<close>

definition listGet :: "rat \<Rightarrow> jsval list \<Rightarrow> jsval \<Rightarrow> jsval" where
  "listGet rnd list idx =
     (let index = listIndex rnd idx (length list)
      in if index = - 1 then JStr '''' else arrayGet list index)"

text \<open>
  A list variable: the array \<^verbatim>\<open>list.value\<close> and the flag \<^verbatim>\<open>list._monitorUpToDate\<close>.
\<close>

record variable =
  listValue :: "jsval list"
  monitorUpToDate :: bool

text \<open>
  \<^verbatim>\<open>const listReplace = (list, idx, value) => {
    const index = listIndex(idx, list.value.length);
    if (index === -1) {
        return;
    }
    list.value[index] = value;
    list._monitorUpToDate = false;
};\<close>
\<close>

definition listReplace :: "rat \<Rightarrow> variable \<Rightarrow> jsval \<Rightarrow> jsval \<Rightarrow> variable" where
  "listReplace rnd list idx v =
     (let index = listIndex rnd idx (length (listValue list))
      in if index = - 1 then list
         else list\<lparr>listValue := arraySet (listValue list) index v, monitorUpToDate := False\<rparr>)"

text \<open>
  \<^verbatim>\<open>const listInsert = (list, idx, value) => {
    const index = listIndex(idx, list.value.length + 1);
    if (index === -1) {
        return;
    }
    list.value.splice(index, 0, value);
    list._monitorUpToDate = false;
};\<close>
\<close>

definition listInsert :: "rat \<Rightarrow> variable \<Rightarrow> jsval \<Rightarrow> jsval \<Rightarrow> variable" where
  "listInsert rnd list idx v =
     (let index = listIndex rnd idx (length (listValue list) + 1)
      in if index = - 1 then list
         else list\<lparr>listValue := splice (listValue list) index 0 [v], monitorUpToDate := False\<rparr>)"

text \<open>
  \<^verbatim>\<open>const listDelete = (list, idx) => {
    if (idx === 'all') {
        list.value = [];
        return;
    }
    const index = listIndex(idx, list.value.length);
    if (index === -1) {
        return;
    }
    list.value.splice(index, 1);
    list._monitorUpToDate = false;
};\<close>
\<close>

definition listDelete :: "rat \<Rightarrow> variable \<Rightarrow> jsval \<Rightarrow> variable" where
  "listDelete rnd list idx =
     (if strict_eq idx (JStr ''all'') then list\<lparr>listValue := []\<rparr>
      else
        let index = listIndex rnd idx (length (listValue list))
        in if index = - 1 then list
           else list\<lparr>listValue := splice (listValue list) index 1 [], monitorUpToDate := False\<rparr>)"

text \<open>
  \<^verbatim>\<open>Array.prototype.indexOf\<close>: the offset of the first element strictly equal to the item,
  or \<open>-1\<close>.
\<close>

fun indexOfFrom :: "nat \<Rightarrow> jsval list \<Rightarrow> jsval \<Rightarrow> int" where
  "indexOfFrom i [] item = - 1"
| "indexOfFrom i (x # xs) item = (if strict_eq x item then int i else indexOfFrom (Suc i) xs item)"

definition indexOf :: "jsval list \<Rightarrow> jsval \<Rightarrow> int" where
  "indexOf xs item = indexOfFrom 0 xs item"

text \<open>
  \<^verbatim>\<open>const listContains = (list, item) => {
    if (list.value.indexOf(item) !== -1) {
        return true;
    }
    for (let i = 0; i < list.value.length; i++) {
        if (compareEqual(list.value[i], item)) {
            return true;
        }
    }
    return false;
};\<close>
\<close>

fun containsLoop :: "(rat \<Rightarrow> string) \<Rightarrow> jsval list \<Rightarrow> jsval \<Rightarrow> bool" where
  "containsLoop fracStr [] item = False"
| "containsLoop fracStr (x # xs) item =
     (if compareEqual fracStr x item then True else containsLoop fracStr xs item)"

definition listContains :: "(rat \<Rightarrow> string) \<Rightarrow> variable \<Rightarrow> jsval \<Rightarrow> bool" where
  "listContains fracStr list item =
     (if indexOf (listValue list) item \<noteq> - 1 then True
      else containsLoop fracStr (listValue list) item)"

text \<open>
  \<^verbatim>\<open>const listIndexOf = (list, item) => {
    for (var i = 0; i < list.value.length; i++) {
        if (compareEqual(list.value[i], item)) {
            return i + 1;
        }
    }
    return 0;
};\<close>
\<close>

fun indexOfLoop :: "(rat \<Rightarrow> string) \<Rightarrow> nat \<Rightarrow> jsval list \<Rightarrow> jsval \<Rightarrow> int" where
  "indexOfLoop fracStr i [] item = 0"
| "indexOfLoop fracStr i (x # xs) item =
     (if compareEqual fracStr x item then int i + 1 else indexOfLoop fracStr (Suc i) xs item)"

definition listIndexOf :: "(rat \<Rightarrow> string) \<Rightarrow> variable \<Rightarrow> jsval \<Rightarrow> int" where
  "listIndexOf fracStr list item = indexOfLoop fracStr 0 (listValue list) item"

section \<open>Floored modulo\<close>

text \<open>
  The operators \<^verbatim>\<open>%\<close>, \<^verbatim>\<open>/\<close>, \<^verbatim>\<open>+\<close> and \<^verbatim>\<open><\<close> on numbers. The remainder has the sign of the
  dividend and is \<^verbatim>\<open>NaN\<close> for an infinite dividend or a zero divisor; a finite dividend is its
  own remainder by an infinity. The remainder of two binary64 values is a binary64 value, so
  \<^verbatim>\<open>%\<close> does not round; the quotient and the sum are rounded. A division by zero is written for
  the positive zero.
\<close>

fun js_rem :: "jsnum \<Rightarrow> jsnum \<Rightarrow> jsnum" where
  "js_rem (Fin a) (Fin b) =
     (if b = 0 then NaN else Fin (a - b * of_int (js_truncate (a / b))))"
| "js_rem (Fin a) PInf = Fin a"
| "js_rem (Fin a) NInf = Fin a"
| "js_rem n d = NaN"

fun js_div :: "jsnum \<Rightarrow> jsnum \<Rightarrow> jsnum" where
  "js_div (Fin a) (Fin b) =
     (if b = 0 then (if a = 0 then NaN else if 0 < a then PInf else NInf)
      else round64 (a / b))"
| "js_div (Fin a) PInf = Fin 0"
| "js_div (Fin a) NInf = Fin 0"
| "js_div PInf (Fin b) = (if b < 0 then NInf else PInf)"
| "js_div NInf (Fin b) = (if b < 0 then PInf else NInf)"
| "js_div n d = NaN"

fun js_add :: "jsnum \<Rightarrow> jsnum \<Rightarrow> jsnum" where
  "js_add (Fin a) (Fin b) = round64 (a + b)"
| "js_add NaN d = NaN"
| "js_add n NaN = NaN"
| "js_add PInf NInf = NaN"
| "js_add NInf PInf = NaN"
| "js_add PInf d = PInf"
| "js_add NInf d = NInf"
| "js_add (Fin a) d = d"

fun js_lt :: "jsnum \<Rightarrow> jsnum \<Rightarrow> bool" where
  "js_lt (Fin a) (Fin b) = (a < b)"
| "js_lt NaN d = False"
| "js_lt n NaN = False"
| "js_lt n NInf = False"
| "js_lt NInf d = True"
| "js_lt PInf d = False"
| "js_lt (Fin a) PInf = True"

text \<open>
  \<^verbatim>\<open>const mod = (n, modulus) => {
    let result = n % modulus;
    if (result / modulus < 0) result += modulus;
    return result;
};\<close>
\<close>

definition mod_js :: "jsnum \<Rightarrow> jsnum \<Rightarrow> jsnum" where
  "mod_js n modulus =
     (let result = js_rem n modulus
      in if js_lt (js_div result modulus) (Fin 0) then js_add result modulus else result)"

section \<open>Suspension primitives\<close>

text \<open>
  The status of a thread. The source writes \<^verbatim>\<open>Thread.STATUS_RUNNING\<close>,
  \<^verbatim>\<open>Thread.STATUS_PROMISE_WAIT\<close>, \<^verbatim>\<open>Thread.STATUS_YIELD\<close>, \<^verbatim>\<open>Thread.STATUS_YIELD_TICK\<close> and, in
  \<^verbatim>\<open>waitThreads\<close>, the literal \<^verbatim>\<open>3\<close> with the comment \<^verbatim>\<open>STATUS_YIELD_TICK\<close>.
\<close>

datatype status =
  STATUS_RUNNING | STATUS_PROMISE_WAIT | STATUS_YIELD | STATUS_YIELD_TICK | STATUS_DONE

text \<open>The current thread, as far as this file reads and writes it.\<close>

record thread =
  status :: status
  warp :: nat

text \<open>
  A generator function runs, each time it is resumed, up to its next \<^verbatim>\<open>yield\<close> or to its
  \<^verbatim>\<open>return\<close>.
\<close>

datatype 'a resumption = Yield | Return 'a







text \<open>
  \<^verbatim>\<open>const waitPromise = function*(promise) {
    const _thread = thread;
    let returnValue = undefined;

    promise
        .then(value => {
            returnValue = value;
            _thread.status = Thread.STATUS_RUNNING;
        })
        .catch(error => {
            _thread.status = Thread.STATUS_RUNNING;
            log.warn('Promise rejected in compiled script:', error);
        });

    // enter STATUS_PROMISE_WAIT and yield, this will stop script execution until the promise handlers reset the thread status
    thread.status = Thread.STATUS_PROMISE_WAIT;
    yield;

    return returnValue;
};\<close>
  A promise settles once, with a value or with an error. The handlers run after the code that
  registered them has given control back, so after the \<^verbatim>\<open>yield\<close>. The state of the wait is the
  captured thread, the variable \<^verbatim>\<open>returnValue\<close> and the errors passed to \<^verbatim>\<open>log.warn\<close> so far.
\<close>

datatype settlement = Resolved jsval | Rejected jsval

record promise_wait =
  waiter :: thread
  returnValue :: jsval
  warnings :: "jsval list"

text \<open>The first resumption: up to the \<^verbatim>\<open>yield\<close>.\<close>

definition waitPromise_start :: "thread \<Rightarrow> jsval list \<Rightarrow> unit resumption \<times> promise_wait" where
  "waitPromise_start th logged =
     (Yield, \<lparr>waiter = th\<lparr>status := STATUS_PROMISE_WAIT\<rparr>,
              returnValue = JUndefined, warnings = logged\<rparr>)"

text \<open>The handler that runs when the promise settles.\<close>

fun onSettled :: "settlement \<Rightarrow> promise_wait \<Rightarrow> promise_wait" where
  "onSettled (Resolved v) w =
     w\<lparr>returnValue := v, waiter := (waiter w)\<lparr>status := STATUS_RUNNING\<rparr>\<rparr>"
| "onSettled (Rejected e) w =
     w\<lparr>waiter := (waiter w)\<lparr>status := STATUS_RUNNING\<rparr>, warnings := warnings w @ [e]\<rparr>"

text \<open>
  The second resumption: the \<^verbatim>\<open>return\<close>. A completion is a thrown error on the left or a
  value on the right.
\<close>

definition waitPromise_resume :: "promise_wait \<Rightarrow> (jsval + jsval) resumption" where
  "waitPromise_resume w = Return (Inr (returnValue w))"

text \<open>The whole wait: started, settled, resumed.\<close>

definition waitPromise ::
  "thread \<Rightarrow> jsval list \<Rightarrow> settlement \<Rightarrow> (jsval + jsval) resumption \<times> promise_wait" where
  "waitPromise th logged s =
     (let w = onSettled s (snd (waitPromise_start th logged))
      in (waitPromise_resume w, w))"

section \<open>Compatibility layer\<close>

text \<open>
  \<^verbatim>\<open>let stuckCounter = 0;
const isStuck = () => {
    stuckCounter++;
    if (stuckCounter === 10) {
        stuckCounter = 0;
        return thread.target.runtime.sequencer.timer.timeElapsed() > 500;
    }
    return false;
};\<close>
  The reading that \<^verbatim>\<open>timeElapsed()\<close> would give at the call is the first argument; the result
  is the answer and the new counter.
\<close>

definition isStuck :: "int \<Rightarrow> nat \<Rightarrow> bool \<times> nat" where
  "isStuck timeElapsed stuckCounter =
     (let c = stuckCounter + 1
      in if c = 10 then (timeElapsed > 500, 0) else (False, c))"

text \<open>
  What a call of \<^verbatim>\<open>executeBlock()\<close> gives back: a value, or a promise (\<^verbatim>\<open>isPromise\<close>), named
  by a number. A call of the primitive is known by what it returns and by the status in which
  it leaves the thread; with it goes the reading the timer would give in the pass of the loop
  before that call.
\<close>

datatype block_result = Plain jsval | Promise nat

record block_call =
  timeElapsed :: int
  returned :: block_result
  statusAfter :: status

datatype event = Suspend | Invoke

datatype outcome = Returned jsval | Awaiting nat | Unfinished

text \<open>
  \<^verbatim>\<open>    while (thread.status === Thread.STATUS_YIELD || thread.status === Thread.STATUS_YIELD_TICK) {
        // Yielded threads will run next iteration.
        if (thread.status === Thread.STATUS_YIELD) {
            thread.status = Thread.STATUS_RUNNING;
            // Yield back to the event loop when stuck or not in warp mode.
            if (thread.warp === 0 || isStuck()) {
                yield;
            }
        } else {
            // status is STATUS_YIELD_TICK, always yield to the event loop
            yield;
        }

        returnValue = executeBlock();

        if (isPromise(returnValue)) {
            return yield* waitPromise(returnValue);
        }
    }

    // todo: do we have to do anything extra if status is STATUS_DONE?

    return returnValue;\<close>
  The first part of a pass, up to the call of \<^verbatim>\<open>executeBlock()\<close>, gives the suspensions of
  the pass, the thread and the counter. \<^verbatim>\<open>isStuck()\<close> is not called when \<^verbatim>\<open>thread.warp\<close> is 0.
\<close>

definition yieldStep :: "thread \<Rightarrow> nat \<Rightarrow> int \<Rightarrow> event list \<times> thread \<times> nat" where
  "yieldStep th stuckCounter elapsed =
     (if status th = STATUS_YIELD then
        (let th' = th\<lparr>status := STATUS_RUNNING\<rparr>
         in if warp th' = 0 then ([Suspend], th', stuckCounter)
            else (case isStuck elapsed stuckCounter of
                    (stuck, c) \<Rightarrow> (if stuck then [Suspend] else [], th', c)))
      else ([Suspend], th, stuckCounter))"

text \<open>
  The loop, with the calls the primitive will answer as a list. The result is the events in
  their order, the way the generator ends, the thread and the counter. \<open>Unfinished\<close> is the
  loop asking for a call that the list does not hold.
\<close>

fun compatLoop ::
  "thread \<Rightarrow> nat \<Rightarrow> jsval \<Rightarrow> block_call list \<Rightarrow> event list \<times> outcome \<times> thread \<times> nat" where
  "compatLoop th c rv [] =
     (if status th = STATUS_YIELD \<or> status th = STATUS_YIELD_TICK then ([], Unfinished, th, c)
      else ([], Returned rv, th, c))"
| "compatLoop th c rv (b # bs) =
     (if status th = STATUS_YIELD \<or> status th = STATUS_YIELD_TICK then
        (case yieldStep th c (timeElapsed b) of
           (evs, th1, c1) \<Rightarrow>
             (let th2 = th1\<lparr>status := statusAfter b\<rparr>
              in case returned b of
                   Promise p \<Rightarrow> (evs @ [Invoke], Awaiting p, th2, c1)
                 | Plain v \<Rightarrow>
                     (case compatLoop th2 c1 v bs of
                        (evs', res) \<Rightarrow> (evs @ [Invoke] @ evs', res))))
      else ([], Returned rv, th, c))"

text \<open>
  \<^verbatim>\<open>const executeInCompatibilityLayer = function*(inputs, blockFunction) {
    thread.stackFrames[thread.stackFrames.length - 1].reuse(thread.warp > 0);
    ...
    let returnValue = executeBlock();

    if (isPromise(returnValue)) {
        return yield* waitPromise(returnValue);
    }

    while ...\<close>
  The stack frame is not part of the thread record. \<open>Awaiting p\<close> is the generator handing over
  to \<^verbatim>\<open>waitPromise\<close> on the promise \<open>p\<close>.
\<close>

definition executeInCompatibilityLayer ::
  "thread \<Rightarrow> nat \<Rightarrow> block_call \<Rightarrow> block_call list \<Rightarrow> event list \<times> outcome \<times> thread \<times> nat" where
  "executeInCompatibilityLayer th c b bs =
     (let th1 = th\<lparr>status := statusAfter b\<rparr>
      in case returned b of
           Promise p \<Rightarrow> ([Invoke], Awaiting p, th1, c)
         | Plain v \<Rightarrow>
             (case compatLoop th1 c v bs of
                (evs, res) \<Rightarrow> (Invoke # evs, res)))"

text \<open>
  How a call of the primitive bears on the loop. A call is yielding when it returns no promise
  and leaves the status \<^verbatim>\<open>STATUS_YIELD\<close> or \<^verbatim>\<open>STATUS_YIELD_TICK\<close>: the loop goes on after it. Any
  other call ends the generator, with the value returned or with the wait on the promise.
\<close>

definition yielding :: "block_call \<Rightarrow> bool" where
  "yielding b =
     (case returned b of
        Plain v \<Rightarrow> statusAfter b = STATUS_YIELD \<or> statusAfter b = STATUS_YIELD_TICK
      | Promise p \<Rightarrow> False)"

definition finish :: "block_call \<Rightarrow> outcome" where
  "finish b = (case returned b of Plain v \<Rightarrow> Returned v | Promise p \<Rightarrow> Awaiting p)"

section \<open>Properties of the rounding\<close>

lemma pow2_powi: "pow2 e = 2 powi e"
  by (simp add: pow2_def power_int_def inverse_eq_divide power_one_over)

lemma pow2_pos [simp]: "0 < pow2 e"
  by (simp add: pow2_powi)

lemma pow2_add: "pow2 (a + b) = pow2 a * pow2 b"
  by (simp add: pow2_powi power_int_add)

lemma pow2_diff: "pow2 (a - b) = pow2 a / pow2 b"
  by (simp add: pow2_powi power_int_diff)

lemma pow2_mono: "a \<le> b \<Longrightarrow> pow2 a \<le> pow2 b"
  by (simp add: pow2_powi power_int_increasing)

lemma pow2_strict_mono: "a < b \<Longrightarrow> pow2 a < pow2 b"
  by (simp add: pow2_powi power_int_strict_increasing)

lemma pow2_le_iff: "pow2 a \<le> pow2 b \<longleftrightarrow> a \<le> b"
  using pow2_mono pow2_strict_mono by (metis not_less)

lemma pow2_less_iff: "pow2 a < pow2 b \<longleftrightarrow> a < b"
  using pow2_mono pow2_strict_mono by (metis not_less)

lemma pow2_nonneg_exp: "0 \<le> e \<Longrightarrow> pow2 e = of_int (2 ^ nat e)"
  by (simp add: pow2_def)

lemma pow2_0 [simp]: "pow2 0 = 1"
  by (simp add: pow2_def)

lemma binaryExponent_bounds:
  assumes "0 < q"
  shows "pow2 (binaryExponent q) \<le> q" and "q < pow2 (binaryExponent q + 1)"
proof -
  obtain a b where ab: "quotient_of q = (a, b)" by (cases "quotient_of q")
  have b: "0 < b" using ab by (rule quotient_of_denom_pos)
  have q: "q = of_int a / of_int b" using ab by (rule quotient_of_div)
  have a: "0 < a" using assms b unfolding q by (simp add: zero_less_divide_iff)
  have la: "1 \<le> bitlen a" using a bitlen_nonneg[of a] bitlen_eq_zero_iff[of a] by linarith
  have lb: "1 \<le> bitlen b" using b bitlen_nonneg[of b] bitlen_eq_zero_iff[of b] by linarith
  have "(2::int) ^ nat (bitlen a - 1) \<le> a" "a < 2 ^ nat (bitlen a)"
    using bitlen_bounds[OF a] by auto
  then have "(of_int (2 ^ nat (bitlen a - 1)) :: rat) \<le> of_int a" "(of_int a :: rat) < of_int (2 ^ nat (bitlen a))"
    by (simp_all only: of_int_le_iff of_int_less_iff)
  then have a1: "pow2 (bitlen a - 1) \<le> of_int a" and a2: "of_int a < pow2 (bitlen a)"
    using la by (simp_all add: pow2_nonneg_exp)
  have "(2::int) ^ nat (bitlen b - 1) \<le> b" "b < 2 ^ nat (bitlen b)"
    using bitlen_bounds[OF b] by auto
  then have "(of_int (2 ^ nat (bitlen b - 1)) :: rat) \<le> of_int b" "(of_int b :: rat) < of_int (2 ^ nat (bitlen b))"
    by (simp_all only: of_int_le_iff of_int_less_iff)
  then have b1: "pow2 (bitlen b - 1) \<le> of_int b" and b2: "of_int b < pow2 (bitlen b)"
    using lb by (simp_all add: pow2_nonneg_exp)
  let ?d = "bitlen a - bitlen b"
  have bpos: "(0::rat) < of_int b" using b by simp
  have apos: "(0::rat) < of_int a" using a by simp
  have "pow2 (?d - 1) = pow2 (bitlen a - 1) / pow2 (bitlen b)"
    using pow2_diff[of "bitlen a - 1" "bitlen b"] by (simp add: algebra_simps)
  also have "\<dots> \<le> of_int a / pow2 (bitlen b)"
    by (rule divide_right_mono[OF a1]) (simp add: less_imp_le)
  also have "\<dots> < of_int a / of_int b"
    by (rule divide_strict_left_mono[OF b2 apos]) (use bpos in simp)
  finally have low: "pow2 (?d - 1) < q" unfolding q .
  have "of_int a / of_int b \<le> of_int a / pow2 (bitlen b - 1)"
    by (rule divide_left_mono[OF b1]) (use apos bpos in \<open>simp_all add: less_imp_le\<close>)
  also have "\<dots> < pow2 (bitlen a) / pow2 (bitlen b - 1)"
    by (rule divide_strict_right_mono[OF a2]) simp
  also have "\<dots> = pow2 (?d + 1)"
    using pow2_diff[of "bitlen a" "bitlen b - 1"] by (simp add: algebra_simps)
  finally have up: "q < pow2 (?d + 1)" unfolding q .
  have be: "binaryExponent q = (if pow2 ?d \<le> q then ?d else ?d - 1)"
    by (simp add: binaryExponent_def ab Let_def)
  show "pow2 (binaryExponent q) \<le> q"
    using low be by (auto simp: less_imp_le)
  show "q < pow2 (binaryExponent q + 1)"
    using up be by (auto simp: not_le)
qed

lemma roundTiesToEven_bounds:
  "of_int (roundTiesToEven x) \<le> x + 1 / 2" "x - 1 / 2 \<le> of_int (roundTiesToEven x)"
proof -
  have f: "of_int (floor x) \<le> x" "x < of_int (floor x) + 1" by linarith+
  show "of_int (roundTiesToEven x) \<le> x + 1 / 2"
    by (auto simp: roundTiesToEven_def Let_def; linarith)
  show "x - 1 / 2 \<le> of_int (roundTiesToEven x)"
    by (auto simp: roundTiesToEven_def Let_def; linarith)
qed

lemma roundTiesToEven_of_int [simp]: "roundTiesToEven (of_int k) = k"
  by (simp add: roundTiesToEven_def)

lemma roundTiesToEven_less: "x < of_int M - 1 / 2 \<Longrightarrow> roundTiesToEven x \<le> M - 1"
proof -
  assume "x < of_int M - 1 / 2"
  then have "(of_int (roundTiesToEven x) :: rat) < of_int M"
    using roundTiesToEven_bounds(1)[of x] by linarith
  then show ?thesis by simp
qed

lemma roundTiesToEven_ge: "of_int N \<le> x \<Longrightarrow> N \<le> roundTiesToEven x"
proof -
  assume "of_int N \<le> x"
  then have "(of_int N :: rat) - 1 < of_int (roundTiesToEven x)"
    using roundTiesToEven_bounds(2)[of x] by linarith
  then have "(of_int (N - 1) :: rat) < of_int (roundTiesToEven x)" by simp
  then show ?thesis by simp
qed

lemma roundTiesToEven_le: "x \<le> of_int N \<Longrightarrow> roundTiesToEven x \<le> N"
proof -
  assume "x \<le> of_int N"
  then have "(of_int (roundTiesToEven x) :: rat) < of_int N + 1"
    using roundTiesToEven_bounds(1)[of x] by linarith
  then have "(of_int (roundTiesToEven x) :: rat) < of_int (N + 1)" by simp
  then show ?thesis by simp
qed

lemma roundTiesToEven_half: "\<bar>x\<bar> \<le> 1 / 2 \<Longrightarrow> roundTiesToEven x = 0"
proof -
  assume a: "\<bar>x\<bar> \<le> 1 / 2"
  show ?thesis
  proof (cases "0 \<le> x")
    case True
    then have "floor x = 0" using a by (simp add: floor_eq_iff)
    then show ?thesis using a True by (simp add: roundTiesToEven_def Let_def)
  next
    case False
    then have "floor x = - 1" using a by (simp add: floor_eq_iff)
    then show ?thesis using a False by (auto simp: roundTiesToEven_def Let_def)
  qed
qed

lemma ulpOf_pos [simp]: "0 < ulpOf q"
  by (simp add: ulpOf_def)

lemma ulpOf_nonneg [simp]: "0 \<le> ulpOf q"
  using ulpOf_pos[of q] by (rule less_imp_le)

lemma abs_ulpOf [simp]: "\<bar>ulpOf q\<bar> = ulpOf q"
  by (rule abs_of_nonneg) simp

lemma round64_unfold:
  "q \<noteq> 0 \<Longrightarrow> round64 q =
     (if pow2 1024 \<le> \<bar>of_int (roundTiesToEven (q / ulpOf q)) * ulpOf q\<bar>
      then (if 0 < q then PInf else NInf)
      else Fin (of_int (roundTiesToEven (q / ulpOf q)) * ulpOf q))"
  by (simp add: round64_def Let_def)

lemma round64_nonneg:
  assumes "0 \<le> q"
  shows "round64 q = PInf \<or> (\<exists>r. round64 q = Fin r \<and> 0 \<le> r)"
proof (cases "q = 0")
  case True
  then show ?thesis by (simp add: round64_def)
next
  case False
  then have "0 \<le> q / ulpOf q" using assms ulpOf_pos[of q] by (intro divide_nonneg_pos)
  then have "(of_int 0 :: rat) \<le> q / ulpOf q" by simp
  then have "0 \<le> roundTiesToEven (q / ulpOf q)" by (rule roundTiesToEven_ge)
  then have "(0::rat) \<le> of_int (roundTiesToEven (q / ulpOf q)) * ulpOf q"
    by (intro mult_nonneg_nonneg) simp_all
  then show ?thesis using False assms by (auto simp: round64_unfold)
qed

lemma round64_nonpos:
  assumes "q \<le> 0"
  shows "round64 q = NInf \<or> (\<exists>r. round64 q = Fin r \<and> r \<le> 0)"
proof (cases "q = 0")
  case True
  then show ?thesis by (simp add: round64_def)
next
  case False
  then have "q / ulpOf q \<le> 0" using assms ulpOf_pos[of q] by (intro divide_nonpos_pos)
  then have "q / ulpOf q \<le> (of_int 0 :: rat)" by simp
  then have "roundTiesToEven (q / ulpOf q) \<le> 0" by (rule roundTiesToEven_le)
  then have "of_int (roundTiesToEven (q / ulpOf q)) * ulpOf q \<le> (0::rat)"
    using ulpOf_pos[of q] by (intro mult_nonpos_nonneg) simp_all
  then show ?thesis using False assms by (auto simp: round64_unfold)
qed

lemma half_ulp_less:
  assumes "pow2 (- 1075) < \<bar>q\<bar>"
  shows "ulpOf q / 2 < \<bar>q\<bar>"
proof -
  have q: "0 < \<bar>q\<bar>" using assms pow2_pos[of "- 1075"] by linarith
  let ?e = "max (binaryExponent \<bar>q\<bar>) (- 1022)"
  have h: "ulpOf q / 2 = pow2 (?e - 53)"
    using pow2_diff[of "?e - 52" 1] by (simp add: ulpOf_def pow2_def)
  show ?thesis
  proof (cases "- 1022 \<le> binaryExponent \<bar>q\<bar>")
    case True
    then have "?e = binaryExponent \<bar>q\<bar>" by simp
    then have "pow2 (?e - 53) < pow2 (binaryExponent \<bar>q\<bar>)" by (simp add: pow2_strict_mono)
    also have "\<dots> \<le> \<bar>q\<bar>" using binaryExponent_bounds(1)[OF q] .
    finally show ?thesis using h by simp
  next
    case False
    then have "?e = - 1022" by simp
    then have "pow2 (?e - 53) = pow2 (- 1075)" by simp
    then show ?thesis using h assms by simp
  qed
qed

lemma round64_negative:
  assumes "q < - pow2 (- 1075)"
  shows "round64 q = NInf \<or> (\<exists>r. round64 q = Fin r \<and> r < 0)"
proof -
  have q0: "q < 0" using assms pow2_pos[of "- 1075"] by linarith
  then have "pow2 (- 1075) < \<bar>q\<bar>" using assms by simp
  then have "ulpOf q / 2 < \<bar>q\<bar>" by (rule half_ulp_less)
  then have "ulpOf q / 2 < - q" using q0 by simp
  then have "q / ulpOf q < - (1 / 2)" by (simp add: field_simps)
  then have "q / ulpOf q < of_int 0 - 1 / 2" by simp
  then have "roundTiesToEven (q / ulpOf q) \<le> 0 - 1" by (rule roundTiesToEven_less)
  then have "(of_int (roundTiesToEven (q / ulpOf q)) :: rat) \<le> - 1" by simp
  then have "of_int (roundTiesToEven (q / ulpOf q)) * ulpOf q \<le> - 1 * ulpOf q"
    by (intro mult_right_mono) simp_all
  then have "of_int (roundTiesToEven (q / ulpOf q)) * ulpOf q < 0"
    using ulpOf_pos[of q] by linarith
  then show ?thesis using q0 by (auto simp: round64_unfold)
qed

lemma round64_underflow:
  assumes "\<bar>q\<bar> \<le> pow2 (- 1075)"
  shows "round64 q = Fin 0"
proof (cases "q = 0")
  case True
  then show ?thesis by (simp add: round64_def)
next
  case False
  then have q: "0 < \<bar>q\<bar>" by simp
  have "pow2 (binaryExponent \<bar>q\<bar>) \<le> pow2 (- 1075)"
    using binaryExponent_bounds(1)[OF q] assms by linarith
  then have "binaryExponent \<bar>q\<bar> \<le> - 1075" by (simp only: pow2_le_iff)
  then have "max (binaryExponent \<bar>q\<bar>) (- 1022) = - 1022" by simp
  then have u: "ulpOf q = pow2 (- 1074)" by (simp add: ulpOf_def)
  have "pow2 (- 1075) = pow2 (- 1074) / 2" using pow2_diff[of "- 1074" 1] by (simp add: pow2_def)
  then have "\<bar>q\<bar> / pow2 (- 1074) \<le> 1 / 2" using assms by (simp add: field_simps)
  then have "\<bar>q / ulpOf q\<bar> \<le> 1 / 2" using u by simp
  then have "roundTiesToEven (q / ulpOf q) = 0" by (rule roundTiesToEven_half)
  then show ?thesis using False pow2_pos[of 1024] by (simp add: round64_unfold not_le)
qed

lemma round64_overflow:
  assumes "pow2 1024 \<le> \<bar>q\<bar>"
  shows "round64 q = (if 0 < q then PInf else NInf)"
proof -
  have q: "0 < \<bar>q\<bar>" using assms pow2_pos[of 1024] by linarith
  then have q0: "q \<noteq> 0" by simp
  let ?b = "binaryExponent \<bar>q\<bar>"
  have "pow2 1024 < pow2 (?b + 1)" using assms binaryExponent_bounds(2)[OF q] by linarith
  then have b: "1024 \<le> ?b" by (simp only: pow2_less_iff)
  then have u: "ulpOf q = pow2 (?b - 52)" by (simp add: ulpOf_def)
  have n: "pow2 52 = of_int (2 ^ 52)" by (simp add: pow2_def)
  have "pow2 ?b / ulpOf q = pow2 52" unfolding u using pow2_diff[of ?b "?b - 52"] by simp
  then have "of_int (2 ^ 52) \<le> \<bar>q\<bar> / ulpOf q"
    using binaryExponent_bounds(1)[OF q] n by (metis divide_right_mono less_imp_le ulpOf_pos)
  then have k: "of_int (2 ^ 52) \<le> \<bar>q / ulpOf q\<bar>" by simp
  have "(2::int) ^ 52 \<le> \<bar>roundTiesToEven (q / ulpOf q)\<bar>"
  proof (cases "0 < q")
    case True
    then have "of_int (2 ^ 52) \<le> q / ulpOf q" using k by simp
    then have "2 ^ 52 \<le> roundTiesToEven (q / ulpOf q)" by (rule roundTiesToEven_ge)
    then show ?thesis by simp
  next
    case False
    then have "q / ulpOf q \<le> 0" using ulpOf_pos[of q] by (intro divide_nonpos_pos) simp_all
    then have "q / ulpOf q \<le> of_int (- (2 ^ 52))" using k by simp
    then have "roundTiesToEven (q / ulpOf q) \<le> - (2 ^ 52)" by (rule roundTiesToEven_le)
    then show ?thesis by simp
  qed
  then have "(of_int (2 ^ 52) :: rat) \<le> of_int \<bar>roundTiesToEven (q / ulpOf q)\<bar>"
    by (simp only: of_int_le_iff)
  then have "pow2 52 * ulpOf q \<le> \<bar>of_int (roundTiesToEven (q / ulpOf q))\<bar> * ulpOf q"
    unfolding n by (intro mult_right_mono) simp_all
  moreover have "pow2 52 * ulpOf q = pow2 ?b" unfolding u using pow2_add[of 52 "?b - 52"] by simp
  moreover have "pow2 1024 \<le> pow2 ?b" using b by (rule pow2_mono)
  ultimately have "pow2 1024 \<le> \<bar>of_int (roundTiesToEven (q / ulpOf q)) * ulpOf q\<bar>"
    by (simp add: abs_mult)
  then show ?thesis using q0 by (simp add: round64_unfold)
qed

lemma ulpOf_neq0 [simp]: "ulpOf q \<noteq> 0"
  by (metis ulpOf_pos less_irrefl)

lemma round64_exact:
  assumes "q \<noteq> 0" "q / ulpOf q = of_int j" "\<bar>q\<bar> < pow2 1024"
  shows "round64 q = Fin q"
proof -
  have "of_int (roundTiesToEven (q / ulpOf q)) * ulpOf q = q / ulpOf q * ulpOf q"
    unfolding assms(2) by simp
  also have "\<dots> = q"
  proof -
    have "ulpOf q \<noteq> 0" by (metis ulpOf_pos less_irrefl)
    then show ?thesis by simp
  qed
  finally have r: "of_int (roundTiesToEven (q / ulpOf q)) * ulpOf q = q" .
  show ?thesis using assms(1,3) by (simp add: round64_unfold r not_le)
qed

lemma pow2_neg: "pow2 (- e) = 1 / pow2 e"
  using pow2_diff[of 0 e] by simp

lemma round64_of_int:
  assumes "\<bar>k\<bar> \<le> 2 ^ 53"
  shows "round64 (of_int k) = Fin (of_int k)"
proof (cases "k = 0")
  case True
  then show ?thesis by (simp add: round64_def)
next
  case False
  let ?q = "of_int k :: rat"
  let ?b = "binaryExponent \<bar>?q\<bar>"
  have q: "0 < \<bar>?q\<bar>" using False by simp
  have one: "1 \<le> \<bar>?q\<bar>"
  proof -
    have "1 \<le> \<bar>k\<bar>" using False by linarith
    then have "(of_int 1 :: rat) \<le> of_int \<bar>k\<bar>" by (simp only: of_int_le_iff)
    then show ?thesis by simp
  qed
  have le: "\<bar>?q\<bar> \<le> pow2 53"
  proof -
    have "(of_int \<bar>k\<bar> :: rat) \<le> of_int (2 ^ 53)" using assms by (simp only: of_int_le_iff)
    then show ?thesis by (simp add: pow2_def)
  qed
  have "pow2 0 < pow2 (?b + 1)" using one binaryExponent_bounds(2)[OF q] by simp
  then have b0: "0 \<le> ?b" by (simp only: pow2_less_iff)
  have "pow2 ?b \<le> pow2 53" using le binaryExponent_bounds(1)[OF q] by linarith
  then have b53: "?b \<le> 53" by (simp only: pow2_le_iff)
  have u: "ulpOf ?q = pow2 (?b - 52)" using b0 by (simp add: ulpOf_def)
  have big: "\<bar>?q\<bar> < pow2 1024"
  proof -
    have "pow2 53 < pow2 1024" by (rule pow2_strict_mono) simp
    then show ?thesis using le by linarith
  qed
  have "\<exists>j. ?q / ulpOf ?q = of_int j"
  proof (cases "?b \<le> 52")
    case True
    have "1 / pow2 (?b - 52) = pow2 (52 - ?b)" using pow2_neg[of "?b - 52"] by simp
    also have "\<dots> = of_int (2 ^ nat (52 - ?b))" using True by (simp add: pow2_nonneg_exp)
    finally have inv: "1 / pow2 (?b - 52) = of_int (2 ^ nat (52 - ?b))" .
    have "?q / ulpOf ?q = ?q * (1 / pow2 (?b - 52))" unfolding u by simp
    also have "\<dots> = of_int (k * 2 ^ nat (52 - ?b))" unfolding inv by simp
    finally show ?thesis by blast
  next
    case False
    then have b: "?b = 53" using b53 by linarith
    have "pow2 53 \<le> \<bar>?q\<bar>" using binaryExponent_bounds(1)[OF q] b by simp
    then have "\<bar>?q\<bar> = pow2 53" using le by linarith
    then have "\<bar>?q\<bar> = of_int (2 ^ 53)" by (simp add: pow2_def)
    then have "(of_int \<bar>k\<bar> :: rat) = of_int (2 ^ 53)" by simp
    then have k: "\<bar>k\<bar> = 2 ^ 53" by (simp only: of_int_eq_iff)
    have "k = 2 * 2 ^ 52 \<or> k = 2 * (- (2 ^ 52))" using k by (auto simp: abs_if split: if_splits)
    then obtain m where m: "k = 2 * m" by blast
    have "ulpOf ?q = 2" unfolding u b by (simp add: pow2_def)
    then have "?q / ulpOf ?q = of_int m" using m by simp
    then show ?thesis by blast
  qed
  then obtain j where "?q / ulpOf ?q = of_int j" by blast
  then show ?thesis using False big by (intro round64_exact) simp_all
qed

lemma isBinary64_grid:
  assumes "isBinary64 q" "q \<noteq> 0"
  shows "q = of_int (roundTiesToEven (q / ulpOf q)) * ulpOf q"
  using assms by (auto simp: isBinary64_def round64_unfold split: if_splits)



section \<open>Properties of the numeric literals\<close>

text \<open>The definitions a closed numeric conversion unfolds to.\<close>

lemmas num_defs =
  StringToNumber_def trim_def isStrWhiteSpaceChar_def parseNonDecimal_def parseDecimal_def
  parseUnsignedDecimal_def isDigit_def parseExponent_def decimalValue_def pow10_def
  digitsValue_def radixDigit_def

lemma round64_numeral:
  "numeral k \<le> (2 ^ 53 :: int) \<Longrightarrow> round64 (numeral k) = Fin (numeral k)"
  using round64_of_int[of "numeral k"] by simp

lemma round64_0 [simp]: "round64 0 = Fin 0"
  by (simp add: round64_def)

lemma round64_1 [simp]: "round64 1 = Fin 1"
  using round64_of_int[of 1] by simp

text \<open>
  The literal \<^verbatim>\<open>0.1\<close> is read as the binary64 value next to one tenth, and \<^verbatim>\<open>1e309\<close>, which is
  above every finite binary64 value, as \<^verbatim>\<open>Infinity\<close>.
\<close>

lemma round64_tenth: "round64 (1 / 10) = Fin (3602879701896397 / 36028797018963968)"
  by code_simp

lemma round64_1e309: "round64 (10 ^ 309) = PInf"
proof -
  have "pow2 1024 \<le> \<bar>10 ^ 309 :: rat\<bar>" by (simp add: pow2_def)
  then show ?thesis using round64_overflow[of "10 ^ 309"] by simp
qed

lemma StringToNumber_examples:
  "StringToNumber ''0.1'' = Fin (3602879701896397 / 36028797018963968)"
  "StringToNumber ''1e309'' = PInf"
  "StringToNumber ''0x1F'' = Fin 31"
  "StringToNumber '' 5 '' = Fin 5"
  "StringToNumber '''' = Fin 0"
  "StringToNumber ''abc'' = NaN"
  using round64_1e309 by (simp_all add: num_defs round64_tenth round64_numeral)

section \<open>Properties of the list index\<close>

lemma ToInt32_small: "0 \<le> q \<Longrightarrow> q < 2 ^ 31 \<Longrightarrow> ToInt32 (Fin q) = floor q"
proof -
  assume a: "0 \<le> q" "q < 2 ^ 31"
  have f0: "0 \<le> floor q" using a by simp
  have "floor q < 2 ^ 31" using a(2) by (simp add: floor_less_iff)
  then show ?thesis using f0 a by (simp add: js_truncate_def Let_def)
qed




lemma ToInt32_orZero: "ToInt32 (orZero n) = ToInt32 n"
  by (cases n) (auto simp: orZero_def js_truncate_def)

text \<open>
  What the code does with an index that is none of the three words: the number it coerces to,
  converted to a signed 32-bit integer, is tested against the length.
\<close>

lemma listIndex_other:
  assumes "idx \<noteq> JStr ''last''" "idx \<noteq> JStr ''random''" "idx \<noteq> JStr ''*''"
  shows "listIndex rnd idx len = (let i = ToInt32 (orZero (ToNumber idx)) in if 1 \<le> i \<and> i \<le> int len then i - 1 else - 1)"
proof (cases idx)
  case (JNum n)
  then show ?thesis by (auto simp: listIndex_def Let_def ToInt32_orZero)
qed (use assms in \<open>auto simp: listIndex_def Let_def\<close>)

lemma listIndex_last: "listIndex rnd (JStr ''last'') len = (if 0 < len then int len - 1 else - 1)"
  by (simp add: listIndex_def)

lemma listIndex_random_value:
  "listIndex (3 / 4) (JStr ''random'') 3221225472 = - 1879048192"
proof -
  have "round64 (of_int 2415919104) = Fin (of_int 2415919104)" by (rule round64_of_int) simp
  then have "round64 (3 / 4 * of_nat 3221225472) = Fin 2415919104" by simp
  then show ?thesis by (simp add: listIndex_def js_truncate_def)
qed

text \<open>
  A numeral is rounded before it is converted: \<^verbatim>\<open>"4091.0513e16"\<close> is read as
  \<open>40910512999999995904\<close>, whose 32-bit conversion is not an index into a list of \<open>4096\<close>
  elements.
\<close>

lemma listIndex_rounded_literal: "listIndex rnd (JStr ''4091.0513e16'') 4096 = - 1"
proof -
  have "round64 40910513000000000000 = Fin 40910512999999995904" by code_simp
  then show ?thesis by (simp add: listIndex_def js_truncate_def orZero_def num_defs)
qed

text \<open>
  Claim C2 fails in the code where the 32-bit conversion \<^verbatim>\<open>index | 0\<close> wraps around. The index
  \<open>4294967297 = 2 ^ 32 + 1\<close> truncates to itself and lies outside \<open>[1, 5]\<close>, as the index \<open>6\<close>
  does; the conversion turns it into \<open>1\<close>, which passes the test
  \<^verbatim>\<open>index < 1 || index > length\<close>, and \<open>listIndex\<close> returns the offset \<open>0\<close> of a list of five
  elements, where the claim and the comment above the function (\<^verbatim>\<open>-1 if invalid\<close>) have \<open>-1\<close>;
  the same holds of the string \<^verbatim>\<open>"4294967297"\<close>. The index \<open>6\<close> is rejected on that list. On a
  length above \<open>2 ^ 31\<close> the same conversion of the scaled draw gives for \<^verbatim>\<open>"random"\<close> a
  negative number that is neither \<open>-1\<close> nor an offset.
\<close>

theorem listIndex_wraps_around:
  "listIndex rnd (JNum (Fin 4294967297)) 5 = 0
   \<and> listIndex rnd (JStr ''4294967297'') 5 = 0
   \<and> js_truncate 4294967297 = 4294967297
   \<and> ToInt32 (Fin 4294967297) = 1
   \<and> listIndex rnd (JNum (Fin 6)) 5 = - 1
   \<and> listIndex (3 / 4) (JStr ''random'') 3221225472 = - 1879048192"
proof -
  have a: "listIndex rnd (JNum (Fin 4294967297)) 5 = 0"
    by (simp add: listIndex_def js_truncate_def)
  have b: "listIndex rnd (JStr ''4294967297'') 5 = 0"
    by (simp add: listIndex_def js_truncate_def orZero_def num_defs round64_numeral)
  have c: "js_truncate 4294967297 = 4294967297" "ToInt32 (Fin 4294967297) = 1"
    by (simp_all add: js_truncate_def)
  have d: "listIndex rnd (JNum (Fin 6)) 5 = - 1"
    by (simp add: listIndex_def js_truncate_def)
  show ?thesis using a b c d listIndex_random_value by (simp del: ToInt32.simps)
qed

section \<open>Properties of the comparison\<close>

text \<open>
  \<open>isWhiteSpace\<close> holds of the blank values: trimming leaves nothing exactly when every
  character is white space.
\<close>

lemma dropWhile_all: "(\<forall>x\<in>set (dropWhile P xs). P x) \<longleftrightarrow> (\<forall>x\<in>set xs. P x)"
  by (induction xs) auto

lemma trim_empty_iff: "trim s = [] \<longleftrightarrow> list_all isStrWhiteSpaceChar s"
  by (simp add: trim_def dropWhile_eq_Nil_conv dropWhile_all list_all_iff)

lemma isWhiteSpace_blank: "isWhiteSpace v = blank v"
  by (cases v) (simp_all add: trim_empty_iff)

lemma compareEqual_refines: "compareEqual fracStr a b = compareEqual_spec fracStr a b"
  by (auto simp add: compareEqual_def compareEqual_spec_def blankToNaN_def coerceOperand_def
      num_strict_eq_def Let_def isWhiteSpace_blank simp del: blank.simps elim: isNaN.elims)

lemmas cmp_defs = compareEqual_def blankToNaN_def num_strict_eq_def toLowerCase_def
  toLowerChar_def isSafeInteger_def intToString_def

text \<open>
  Claim C1. For every pair of operands, \<open>compareEqual\<close> is the comparison the specification
  words: both operands are coerced to numbers, an operand that coerces to zero but is blank
  (white space only, or \<^verbatim>\<open>null\<close>) counts as not-a-number, the lower-cased string forms are
  compared when either side is then not-a-number, and the numbers are compared otherwise. The
  test \<open>isWhiteSpace\<close> of the code is the test for a blank value. An operand that coerces to
  zero and is not blank stays a number: \<^verbatim>\<open>compareEqual(0, "0.0")\<close> and
  \<^verbatim>\<open>compareEqual(false, 0)\<close> are true; the white space around a numeral is skipped:
  \<^verbatim>\<open>compareEqual(" 5 ", 5)\<close> is true, also with a tabulation and a no-break space around the
  numeral; \<^verbatim>\<open>""\<close>, \<^verbatim>\<open>null\<close> and the string of a tabulation, a line feed and a no-break space,
  which is blank, are not equal to \<open>0\<close>. Numerals are read as binary64 values: the number
  \<open>0.1\<close> equals \<^verbatim>\<open>"0.1"\<close> and \<^verbatim>\<open>"1e309"\<close> equals \<^verbatim>\<open>"Infinity"\<close>.
  \<^verbatim>\<open>compareEqual("Foo", "foo")\<close> is true, \<^verbatim>\<open>compareEqual(" ", 0)\<close> is false and
  \<^verbatim>\<open>compareEqual("5", "5.0")\<close> is true.
\<close>

theorem compareEqual_coercion:
  "compareEqual fracStr a b = compareEqual_spec fracStr a b
   \<and> isWhiteSpace a = blank a
   \<and> compareEqual fracStr (JStr ''Foo'') (JStr ''foo'')
   \<and> \<not> compareEqual fracStr (JStr '' '') (JNum (Fin 0))
   \<and> compareEqual fracStr (JStr ''5'') (JStr ''5.0'')
   \<and> compareEqual fracStr (JNum (Fin 0)) (JStr ''0.0'')
   \<and> compareEqual fracStr (JBool False) (JNum (Fin 0))
   \<and> compareEqual fracStr (JStr '' 5 '') (JNum (Fin 5))
   \<and> \<not> compareEqual fracStr (JStr '''') (JNum (Fin 0))
   \<and> \<not> compareEqual fracStr JNull (JNum (Fin 0))
   \<and> isWhiteSpace (JStr [CHR 0x09, CHR 0x0A, CHR 0xA0])
   \<and> \<not> compareEqual fracStr (JStr [CHR 0x09, CHR 0x0A, CHR 0xA0]) (JNum (Fin 0))
   \<and> compareEqual fracStr (JStr [CHR 0x09, CHR ''5'', CHR 0xA0]) (JNum (Fin 5))
   \<and> compareEqual fracStr (JNum (Fin (3602879701896397 / 36028797018963968))) (JStr ''0.1'')
   \<and> compareEqual fracStr (JStr ''1e309'') (JStr ''Infinity'')"
proof -
  have e1: "compareEqual fracStr (JStr ''Foo'') (JStr ''foo'')"
    by (simp add: cmp_defs num_defs)
  have e2: "\<not> compareEqual fracStr (JStr '' '') (JNum (Fin 0))"
    by (simp add: cmp_defs num_defs)
  have e3: "compareEqual fracStr (JStr ''5'') (JStr ''5.0'')"
    by (simp add: cmp_defs num_defs round64_numeral)
  have e4: "compareEqual fracStr (JNum (Fin 0)) (JStr ''0.0'')"
    by (simp add: cmp_defs num_defs)
  have e5: "compareEqual fracStr (JBool False) (JNum (Fin 0))"
    by (simp add: cmp_defs)
  have e6: "compareEqual fracStr (JStr '' 5 '') (JNum (Fin 5))"
    by (simp add: cmp_defs num_defs round64_numeral)
  have e7: "\<not> compareEqual fracStr (JStr '''') (JNum (Fin 0))"
    by (simp add: cmp_defs num_defs)
  have e8: "\<not> compareEqual fracStr JNull (JNum (Fin 0))"
    by (simp add: cmp_defs)
  have e11: "\<not> compareEqual fracStr (JStr [CHR 0x09, CHR 0x0A, CHR 0xA0]) (JNum (Fin 0))"
    by (simp add: cmp_defs num_defs)
  have e12: "isWhiteSpace (JStr [CHR 0x09, CHR 0x0A, CHR 0xA0])"
    by (simp add: trim_def isStrWhiteSpaceChar_def)
  have e13: "compareEqual fracStr (JStr [CHR 0x09, CHR ''5'', CHR 0xA0]) (JNum (Fin 5))"
    by (simp add: cmp_defs num_defs round64_numeral)
  have e9: "compareEqual fracStr (JNum (Fin (3602879701896397 / 36028797018963968))) (JStr ''0.1'')"
    by (simp add: cmp_defs num_defs round64_tenth)
  have e10: "compareEqual fracStr (JStr ''1e309'') (JStr ''Infinity'')"
    using round64_1e309 by (simp add: cmp_defs num_defs)
  show ?thesis
    using compareEqual_refines[of fracStr a b] isWhiteSpace_blank[of a]
      e1 e2 e3 e4 e5 e6 e7 e8 e9 e10 e11 e12 e13
    by (simp only: simp_thms)
qed

text \<open>
  The theorem at \<^verbatim>\<open>null\<close> and \<^verbatim>\<open>"NULL"\<close>: \<^verbatim>\<open>null\<close> coerces to zero and is blank, so the strings
  \<^verbatim>\<open>"null"\<close> and \<^verbatim>\<open>"null"\<close> are compared. And at a string of a space and a tabulation, which is
  blank, against the empty string: both count as not-a-number and the strings differ.
\<close>

theorem compareEqual_coercion_witness:
  "compareEqual (\<lambda>q. ''?'') JNull (JStr ''NULL'') = compareEqual_spec (\<lambda>q. ''?'') JNull (JStr ''NULL'')
   \<and> compareEqual_spec (\<lambda>q. ''?'') JNull (JStr ''NULL'')
   \<and> isWhiteSpace (JStr [CHR '' '', CHR 0x09])
   \<and> \<not> compareEqual_spec (\<lambda>q. ''?'') (JStr [CHR '' '', CHR 0x09]) (JStr '''')
   \<and> \<not> isWhiteSpace (JStr ''0'')
   \<and> compareEqual (\<lambda>q. ''?'') (JStr ''Foo'') (JStr ''foo'')"
proof -
  have a: "compareEqual (\<lambda>q. ''?'') JNull (JStr ''NULL'')"
    by (simp add: cmp_defs num_defs)
  have b: "\<not> compareEqual (\<lambda>q. ''?'') (JStr [CHR '' '', CHR 0x09]) (JStr '''')"
    by (simp add: cmp_defs num_defs)
  have c: "blank (JStr [CHR '' '', CHR 0x09])" "\<not> blank (JStr ''0'')"
    by (simp_all add: isStrWhiteSpaceChar_def)
  show ?thesis
    using compareEqual_coercion [of "\<lambda>q. ''?''" JNull "JStr ''NULL''"]
      compareEqual_coercion [of "\<lambda>q. ''?''" "JStr [CHR '' '', CHR 0x09]" "JStr ''''"]
      compareEqual_coercion [of "\<lambda>q. ''?''" "JStr ''0''" JNull] a b c
    by (simp del: isWhiteSpace.simps blank.simps)
qed

lemma strict_eq_eq: "strict_eq x y \<Longrightarrow> x = y"
  by (cases x; cases y) (auto simp: num_strict_eq_def)

lemma compareEqual_refl: "compareEqual fracStr x x"
  by (auto simp add: compareEqual_def blankToNaN_def num_strict_eq_def Let_def)

lemma containsLoop_iff: "containsLoop f xs item \<longleftrightarrow> (\<exists>x\<in>set xs. compareEqual f x item)"
  by (induction xs) auto

lemma indexOfLoop_iff: "indexOfLoop f i xs item \<noteq> 0 \<longleftrightarrow> (\<exists>x\<in>set xs. compareEqual f x item)"
  by (induction xs arbitrary: i) auto

lemma indexOfFrom_found: "indexOfFrom i xs item \<noteq> - 1 \<Longrightarrow> \<exists>x\<in>set xs. strict_eq x item"
  by (induction xs arbitrary: i) (auto split: if_splits)

text \<open>
  Claim C10. For every list of scalars and every scalar item, \<open>listContains\<close> is true exactly
  when \<open>listIndexOf\<close> is not \<open>0\<close>. \<open>compareEqual\<close> is reflexive, so whenever the strict
  equality of \<^verbatim>\<open>indexOf\<close> finds the item, the loop over \<open>compareEqual\<close> finds it too: the fast
  path never changes the outcome.
\<close>

theorem listContains_iff_listIndexOf:
  "(listContains fracStr l item \<longleftrightarrow> listIndexOf fracStr l item \<noteq> 0)
   \<and> compareEqual fracStr x x
   \<and> (indexOf (listValue l) item \<noteq> - 1 \<longrightarrow> containsLoop fracStr (listValue l) item)"
proof -
  have fast: "indexOf (listValue l) item \<noteq> - 1 \<Longrightarrow> containsLoop fracStr (listValue l) item"
  proof -
    assume "indexOf (listValue l) item \<noteq> - 1"
    then obtain y where y: "y \<in> set (listValue l)" "strict_eq y item"
      unfolding indexOf_def using indexOfFrom_found by blast
    then have "compareEqual fracStr y item"
      using strict_eq_eq compareEqual_refl by metis
    then show ?thesis using y(1) containsLoop_iff by blast
  qed
  have "listContains fracStr l item \<longleftrightarrow> containsLoop fracStr (listValue l) item"
    using fast by (auto simp: listContains_def)
  then have "listContains fracStr l item \<longleftrightarrow> listIndexOf fracStr l item \<noteq> 0"
    by (simp add: listIndexOf_def containsLoop_iff indexOfLoop_iff)
  then show ?thesis using fast compareEqual_refl by blast
qed

text \<open>
  The theorem on the list \<^verbatim>\<open>["a", NaN, 5]\<close>: \<^verbatim>\<open>indexOf\<close> finds \<open>5\<close> and so does the loop;
  \<^verbatim>\<open>indexOf\<close> does not find \<^verbatim>\<open>NaN\<close>, the loop finds it at the index \<open>2\<close>.
\<close>

theorem listContains_iff_listIndexOf_witness:
  "listContains (\<lambda>q. ''?'') \<lparr>listValue = [JStr ''a'', JNum NaN, JNum (Fin 5)], monitorUpToDate = True\<rparr> (JNum NaN)
   \<and> listIndexOf (\<lambda>q. ''?'') \<lparr>listValue = [JStr ''a'', JNum NaN, JNum (Fin 5)], monitorUpToDate = True\<rparr> (JNum NaN) = 2
   \<and> indexOf [JStr ''a'', JNum NaN, JNum (Fin 5)] (JNum (Fin 5)) = 2
   \<and> containsLoop (\<lambda>q. ''?'') [JStr ''a'', JNum NaN, JNum (Fin 5)] (JNum (Fin 5))
   \<and> indexOf [JStr ''a'', JNum NaN, JNum (Fin 5)] (JNum NaN) = - 1"
proof -
  let ?l = "\<lparr>listValue = [JStr ''a'', JNum NaN, JNum (Fin 5)], monitorUpToDate = True\<rparr>"
  have i: "listIndexOf (\<lambda>q. ''?'') ?l (JNum NaN) = 2"
    by (simp add: listIndexOf_def cmp_defs num_defs)
  have j: "indexOf [JStr ''a'', JNum NaN, JNum (Fin 5)] (JNum (Fin 5)) = 2"
    "indexOf [JStr ''a'', JNum NaN, JNum (Fin 5)] (JNum NaN) = - 1"
    by (simp_all add: indexOf_def num_strict_eq_def)
  have c: "containsLoop (\<lambda>q. ''?'') [JStr ''a'', JNum NaN, JNum (Fin 5)] (JNum (Fin 5))"
    using listContains_iff_listIndexOf [of "\<lambda>q. ''?''" ?l "JNum (Fin 5)" JNull] j(1)
    by (simp del: containsLoop.simps)
  have lc: "listContains (\<lambda>q. ''?'') ?l (JNum NaN)"
    using listContains_iff_listIndexOf [of "\<lambda>q. ''?''" ?l "JNum NaN" JNull] i
    by (simp del: containsLoop.simps)
  show ?thesis using c lc i j by (simp del: containsLoop.simps)
qed

section \<open>Properties of the list operations\<close>

lemma splice_append: "splice xs (int (length xs)) 0 [v] = xs @ [v]"
  by (simp add: splice_def Let_def)

lemma listIndex_append:
  assumes "n + 1 < 2 ^ 31"
  shows "listIndex rnd (JNum (Fin (of_nat (n + 1)))) (n + 1) = int n"
proof -
  have "(of_nat (n + 1) :: rat) < of_nat (2 ^ 31)" using assms by (simp only: of_nat_less_iff)
  then have "(of_nat (n + 1) :: rat) < 2 ^ 31" by simp
  moreover have "(0::rat) \<le> of_nat (n + 1)" by simp
  ultimately have "ToInt32 (Fin (of_nat (n + 1))) = floor (of_nat (n + 1) :: rat)"
    by (rule ToInt32_small[rotated])
  then have "ToInt32 (Fin (of_nat (n + 1))) = int n + 1" by (simp del: ToInt32.simps)
  then show ?thesis by (simp add: listIndex_def Let_def del: ToInt32.simps)
qed




text \<open>
  Claim C4, as the code has it. \<open>listReplace\<close>, \<open>listInsert\<close> and \<open>listDelete\<close> resolve the
  index through \<open>listIndex\<close>, \<open>listInsert\<close> with the bound \<open>length + 1\<close>, so that the index
  \<open>length + 1\<close> appends; \<open>listDelete\<close> does so for every index but \<^verbatim>\<open>"all"\<close>, which it tests first
  and which empties the list. When the resolution is \<open>-1\<close>, each of them gives the list back
  as it was, elements, length and flag, and \<open>listGet\<close> gives the empty string.
\<close>

theorem list_operations_not_found:
  "(listIndex rnd idx (length (listValue l)) = - 1 \<longrightarrow> listReplace rnd l idx v = l)
   \<and> (listIndex rnd idx (length (listValue l) + 1) = - 1 \<longrightarrow> listInsert rnd l idx v = l)
   \<and> (idx \<noteq> JStr ''all'' \<and> listIndex rnd idx (length (listValue l)) = - 1 \<longrightarrow>
        listDelete rnd l idx = l)
   \<and> (listIndex rnd idx (length xs) = - 1 \<longrightarrow> listGet rnd xs idx = JStr '''')
   \<and> (listIndex rnd idx (length (listValue l)) \<noteq> - 1 \<longrightarrow>
        listReplace rnd l idx v =
          l\<lparr>listValue := arraySet (listValue l) (listIndex rnd idx (length (listValue l))) v,
            monitorUpToDate := False\<rparr>)
   \<and> (listIndex rnd idx (length (listValue l) + 1) \<noteq> - 1 \<longrightarrow>
        listInsert rnd l idx v =
          l\<lparr>listValue := splice (listValue l) (listIndex rnd idx (length (listValue l) + 1)) 0 [v],
            monitorUpToDate := False\<rparr>)
   \<and> (idx \<noteq> JStr ''all'' \<and> listIndex rnd idx (length (listValue l)) \<noteq> - 1 \<longrightarrow>
        listDelete rnd l idx =
          l\<lparr>listValue := splice (listValue l) (listIndex rnd idx (length (listValue l))) 1 [],
            monitorUpToDate := False\<rparr>)
   \<and> (length (listValue l) + 1 < 2 ^ 31 \<longrightarrow>
        listInsert rnd l (JNum (Fin (of_nat (length (listValue l) + 1)))) v =
          l\<lparr>listValue := listValue l @ [v], monitorUpToDate := False\<rparr>)
   \<and> listDelete rnd l (JStr ''all'') = l\<lparr>listValue := []\<rparr>"
proof -
  have app: "length (listValue l) + 1 < 2 ^ 31 \<Longrightarrow>
        listInsert rnd l (JNum (Fin (of_nat (length (listValue l) + 1)))) v =
          l\<lparr>listValue := listValue l @ [v], monitorUpToDate := False\<rparr>"
    using listIndex_append[of "length (listValue l)" rnd] splice_append[of "listValue l" v]
    by (simp add: listInsert_def Let_def)
  have d: "idx \<noteq> JStr ''all'' \<Longrightarrow> \<not> strict_eq idx (JStr ''all'')"
    by (cases idx) auto
  show ?thesis using app d
    by (simp add: listReplace_def listInsert_def listDelete_def listGet_def Let_def)
qed

text \<open>
  The theorem on the list \<^verbatim>\<open>["a", "b"]\<close> with the index \<open>7\<close>, which is not found under either
  bound: the three operations leave the list as it was and \<open>listGet\<close> gives the empty string.
\<close>

theorem list_operations_not_found_witness:
  "listIndex 0 (JNum (Fin 7)) (length [JStr ''a'', JStr ''b'']) = - 1
   \<and> listIndex 0 (JNum (Fin 7)) (length [JStr ''a'', JStr ''b''] + 1) = - 1
   \<and> JNum (Fin 7) \<noteq> JStr ''all''
   \<and> listReplace 0 \<lparr>listValue = [JStr ''a'', JStr ''b''], monitorUpToDate = True\<rparr> (JNum (Fin 7)) JNull
       = \<lparr>listValue = [JStr ''a'', JStr ''b''], monitorUpToDate = True\<rparr>
   \<and> listInsert 0 \<lparr>listValue = [JStr ''a'', JStr ''b''], monitorUpToDate = True\<rparr> (JNum (Fin 7)) JNull
       = \<lparr>listValue = [JStr ''a'', JStr ''b''], monitorUpToDate = True\<rparr>
   \<and> listDelete 0 \<lparr>listValue = [JStr ''a'', JStr ''b''], monitorUpToDate = True\<rparr> (JNum (Fin 7))
       = \<lparr>listValue = [JStr ''a'', JStr ''b''], monitorUpToDate = True\<rparr>
   \<and> listGet 0 [JStr ''a'', JStr ''b''] (JNum (Fin 7)) = JStr ''''"
proof -
  let ?l = "\<lparr>listValue = [JStr ''a'', JStr ''b''], monitorUpToDate = True\<rparr>"
  have a: "listIndex 0 (JNum (Fin 7)) (length [JStr ''a'', JStr ''b'']) = - 1"
    "listIndex 0 (JNum (Fin 7)) (length [JStr ''a'', JStr ''b''] + 1) = - 1"
    by (simp_all add: listIndex_def js_truncate_def)
  show ?thesis
    using list_operations_not_found [of 0 "JNum (Fin 7)" ?l JNull "[JStr ''a'', JStr ''b'']"] a
    by simp
qed

text \<open>
  Claim C4 as it is worded fails at the index \<^verbatim>\<open>"all"\<close>: \<open>listIndex\<close> resolves it to \<open>-1\<close>, and
  \<open>listDelete\<close> empties the list.
\<close>

theorem listDelete_all_counterexample:
  "listIndex 0 (JStr ''all'') (length [JStr ''a'', JStr ''b'']) = - 1
   \<and> listDelete 0 \<lparr>listValue = [JStr ''a'', JStr ''b''], monitorUpToDate = True\<rparr> (JStr ''all'')
       = \<lparr>listValue = [], monitorUpToDate = True\<rparr>"
  by (simp add: listDelete_def listIndex_def orZero_def js_truncate_def num_defs)

text \<open>
  A call of \<open>listReplace\<close> or \<open>listInsert\<close> that changes the list clears the flag, and so does
  a call of \<open>listDelete\<close> with an index other than \<^verbatim>\<open>"all"\<close>.
\<close>

lemma mutation_marks_stale:
  "listReplace rnd l idx v \<noteq> l \<Longrightarrow> \<not> monitorUpToDate (listReplace rnd l idx v)"
  "listInsert rnd l idx v \<noteq> l \<Longrightarrow> \<not> monitorUpToDate (listInsert rnd l idx v)"
  "idx \<noteq> JStr ''all'' \<Longrightarrow> listDelete rnd l idx \<noteq> l \<Longrightarrow> \<not> monitorUpToDate (listDelete rnd l idx)"
  by (cases idx; auto simp: listReplace_def listInsert_def listDelete_def Let_def)+

text \<open>
  Claim C8 fails in the code at \<open>listDelete\<close> with the index \<^verbatim>\<open>"all"\<close>: that branch assigns the
  empty array and returns before the line that clears the flag, so the one-element list is
  emptied and its flag still says up to date.
\<close>

theorem listDelete_all_keeps_flag:
  "listDelete 0 \<lparr>listValue = [JNum (Fin 1)], monitorUpToDate = True\<rparr> (JStr ''all'')
     = \<lparr>listValue = [], monitorUpToDate = True\<rparr>
   \<and> monitorUpToDate (listDelete 0 \<lparr>listValue = [JNum (Fin 1)], monitorUpToDate = True\<rparr> (JStr ''all''))"
  by (simp add: listDelete_def)

section \<open>Properties of the modulo\<close>

lemma js_truncate_floor: "0 \<le> q \<Longrightarrow> js_truncate q = floor q"
  by (simp add: js_truncate_def)

lemma js_truncate_ceiling: "q < 0 \<Longrightarrow> js_truncate q = ceiling q"
  by (simp add: js_truncate_def ceiling_def)

text \<open>The rounded quotient is negative exactly when the quotient is below \<open>- 2 ^ -1075\<close>.\<close>

lemma js_lt_round64_zero: "js_lt (round64 q) (Fin 0) \<longleftrightarrow> q < - pow2 (- 1075)"
proof
  assume l: "js_lt (round64 q) (Fin 0)"
  show "q < - pow2 (- 1075)"
  proof (rule ccontr)
    assume n: "\<not> q < - pow2 (- 1075)"
    show False
    proof (cases "0 \<le> q")
      case True
      then show False using round64_nonneg[of q] l by auto
    next
      case False
      then have "\<bar>q\<bar> \<le> pow2 (- 1075)" using n by linarith
      then have "round64 q = Fin 0" by (rule round64_underflow)
      then show False using l by simp
    qed
  qed
next
  assume "q < - pow2 (- 1075)"
  then show "js_lt (round64 q) (Fin 0)" using round64_negative[of q] by auto
qed

text \<open>
  \<open>mod\<close> on finite operands: the remainder \<open>r\<close> of the truncating division is exact; it is
  returned unless the quotient \<open>r / m\<close> rounds to a negative number, and then the rounded sum
  \<open>r + m\<close> is.
\<close>

lemma mod_js_unfold:
  assumes "m \<noteq> 0"
  shows "mod_js (Fin n) (Fin m) =
     (let r = n - m * of_int (js_truncate (n / m))
      in if r / m < - pow2 (- 1075) then round64 (r + m) else Fin r)"
  using assms by (simp add: mod_js_def Let_def js_lt_round64_zero)

lemma truncated_remainder:
  fixes n m :: rat
  assumes "m \<noteq> 0"
  defines "r \<equiv> n - m * of_int (js_truncate (n / m))"
  shows "r / m = n / m - of_int (js_truncate (n / m))"
    and "0 \<le> n / m \<Longrightarrow> r = n - m * of_int (floor (n / m))"
    and "0 \<le> n / m \<Longrightarrow> 0 \<le> r / m"
    and "n / m < 0 \<Longrightarrow> r / m \<le> 0"
    and "- 1 < r / m"
    and "r / m < 0 \<Longrightarrow> r + m = n - m * of_int (floor (n / m))"
    and "r / m = 0 \<Longrightarrow> r = n - m * of_int (floor (n / m))"
proof -
  let ?q = "n / m"
  show quot: "r / m = ?q - of_int (js_truncate ?q)"
    using assms(1) by (simp add: r_def field_simps)
  have fl: "of_int (floor ?q) \<le> ?q" "?q < of_int (floor ?q) + 1" by linarith+
  have ce: "?q \<le> of_int (ceiling ?q)" "of_int (ceiling ?q) < ?q + 1" by linarith+
  show "0 \<le> ?q \<Longrightarrow> r = n - m * of_int (floor ?q)"
    by (simp add: r_def js_truncate_floor)
  show "0 \<le> ?q \<Longrightarrow> 0 \<le> r / m"
    unfolding quot using fl(1) by (simp add: js_truncate_floor)
  show "?q < 0 \<Longrightarrow> r / m \<le> 0"
    unfolding quot using ce(1) by (simp add: js_truncate_ceiling)
  show "- 1 < r / m"
  proof (cases "0 \<le> ?q")
    case True
    show ?thesis unfolding quot js_truncate_floor[OF True] using fl(1) by linarith
  next
    case False
    then have "?q < 0" by simp
    then have "js_truncate ?q = ceiling ?q" by (rule js_truncate_ceiling)
    then show ?thesis unfolding quot using ce(2) by simp
  qed
  have neg: "r / m < 0 \<Longrightarrow> js_truncate ?q = floor ?q + 1"
  proof -
    assume a: "r / m < 0"
    have q: "?q < 0"
    proof (rule ccontr)
      assume "\<not> ?q < 0"
      then have "0 \<le> r / m" unfolding quot using fl(1) by (simp add: js_truncate_floor)
      then show False using a by simp
    qed
    then have t: "js_truncate ?q = ceiling ?q" by (rule js_truncate_ceiling)
    have "?q < of_int (ceiling ?q)" using a unfolding quot t by simp
    then have "of_int (floor ?q) \<noteq> ?q" using ce(1) by (metis ceiling_of_int less_irrefl)
    then have "ceiling ?q = floor ?q + 1" by (metis ceiling_altdef)
    then show ?thesis using t by simp
  qed
  show "r / m < 0 \<Longrightarrow> r + m = n - m * of_int (floor ?q)"
    using neg by (simp add: r_def algebra_simps)
  show "r / m = 0 \<Longrightarrow> r = n - m * of_int (floor ?q)"
  proof -
    assume "r / m = 0"
    then have "?q = of_int (js_truncate ?q)" unfolding quot by simp
    then have "of_int (floor ?q) = (of_int (js_truncate ?q) :: rat)" by (metis floor_of_int)
    then show ?thesis by (simp add: r_def)
  qed
qed

lemma floored_range_pos:
  fixes n m :: rat
  assumes "0 < m"
  shows "0 \<le> n - m * of_int (floor (n / m))" "n - m * of_int (floor (n / m)) < m"
proof -
  have "of_int (floor (n / m)) * m \<le> n" using assms by (rule floor_divide_lower)
  then show "0 \<le> n - m * of_int (floor (n / m))" by (simp add: mult.commute)
  have "n < (of_int (floor (n / m)) + 1) * m" using assms by (rule floor_divide_upper)
  then show "n - m * of_int (floor (n / m)) < m" by (simp add: algebra_simps)
qed

lemma floored_range_neg:
  fixes n m :: rat
  assumes "m < 0"
  shows "m < n - m * of_int (floor (n / m))" "n - m * of_int (floor (n / m)) \<le> 0"
proof -
  have q: "n / m = (- n) / (- m)" by simp
  have p: "0 < - m" using assms by simp
  have "0 \<le> (- n) - (- m) * of_int (floor ((- n) / (- m)))" using p by (rule floored_range_pos)
  then show "n - m * of_int (floor (n / m)) \<le> 0" unfolding q by simp
  have "(- n) - (- m) * of_int (floor ((- n) / (- m))) < - m" using p by (rule floored_range_pos)
  then show "m < n - m * of_int (floor (n / m))" unfolding q by simp
qed

text \<open>
  When the quotient does not underflow, \<open>mod\<close> is the floored modulo \<open>n - m * \<lfloor>n / m\<rfloor>\<close>,
  rounded when it comes from the sum.
\<close>

lemma mod_js_floored_value:
  assumes m: "m \<noteq> 0"
    and u: "\<not> (- pow2 (- 1075) \<le> (n - m * of_int (js_truncate (n / m))) / m
              \<and> (n - m * of_int (js_truncate (n / m))) / m < 0)"
  shows "mod_js (Fin n) (Fin m) = Fin (n - m * of_int (floor (n / m)))
       \<or> mod_js (Fin n) (Fin m) = round64 (n - m * of_int (floor (n / m)))"
proof -
  let ?r = "n - m * of_int (js_truncate (n / m))"
  note tr = truncated_remainder[OF m, of n]
  show ?thesis
  proof (cases "?r / m < - pow2 (- 1075)")
    case True
    then have neg: "?r / m < 0" using pow2_pos[of "- 1075"] by linarith
    have "mod_js (Fin n) (Fin m) = round64 (?r + m)"
      using True by (simp add: mod_js_unfold[OF m] Let_def)
    then show ?thesis using tr(6)[OF neg] by simp
  next
    case False
    then have nn: "0 \<le> ?r / m" using u by linarith
    have res: "mod_js (Fin n) (Fin m) = Fin ?r"
      using False by (simp add: mod_js_unfold[OF m] Let_def)
    have "?r = n - m * of_int (floor (n / m))"
    proof (cases "0 \<le> n / m")
      case True
      then show ?thesis by (rule tr(2))
    next
      case False
      then have "?r / m \<le> 0" using tr(4) by simp
      then have "?r / m = 0" using nn by linarith
      then show ?thesis by (rule tr(7))
    qed
    then show ?thesis using res by simp
  qed
qed

text \<open>Rounding does not carry a number past a binary64 value: it is monotone there.\<close>

lemma isBinary64_bound: "isBinary64 m \<Longrightarrow> \<bar>m\<bar> < pow2 1024"
  by (cases "m = 0") (auto simp: isBinary64_def round64_unfold not_le split: if_splits)

lemma binaryExponent_mono:
  assumes "0 < x" "x \<le> y"
  shows "binaryExponent x \<le> binaryExponent y"
proof -
  have y: "0 < y" using assms by linarith
  have "pow2 (binaryExponent x) \<le> x" using assms(1) by (rule binaryExponent_bounds)
  also have "x \<le> y" by (rule assms(2))
  also have "y < pow2 (binaryExponent y + 1)" using y by (rule binaryExponent_bounds)
  finally have "binaryExponent x < binaryExponent y + 1" by (simp only: pow2_less_iff)
  then show ?thesis by simp
qed

lemma round64_below_binary64:
  assumes "isBinary64 m" "\<bar>x\<bar> \<le> \<bar>m\<bar>"
  shows "\<exists>y. round64 x = Fin y \<and> \<bar>y\<bar> \<le> \<bar>m\<bar>"
proof (cases "x = 0")
  case True
  then show ?thesis by simp
next
  case False
  then have x: "0 < \<bar>x\<bar>" by simp
  then have m0: "m \<noteq> 0" using assms(2) by auto
  let ?ex = "max (binaryExponent \<bar>x\<bar>) (- 1022)"
  let ?em = "max (binaryExponent \<bar>m\<bar>) (- 1022)"
  have le: "?ex \<le> ?em" using binaryExponent_mono[OF x assms(2)] by simp
  have ux: "ulpOf x = pow2 (?ex - 52)" and um: "ulpOf m = pow2 (?em - 52)"
    by (simp_all add: ulpOf_def)
  have "ulpOf m / ulpOf x = pow2 (?em - ?ex)"
    unfolding ux um using pow2_diff[of "?em - 52" "?ex - 52"] by simp
  also have "\<dots> = of_int (2 ^ nat (?em - ?ex))" using le by (intro pow2_nonneg_exp) simp
  finally have ratio: "ulpOf m / ulpOf x = of_int (2 ^ nat (?em - ?ex))" .
  let ?k = "roundTiesToEven (m / ulpOf m)"
  let ?K = "\<bar>?k\<bar> * 2 ^ nat (?em - ?ex)"
  have g: "m = of_int ?k * ulpOf m" using assms(1) m0 by (rule isBinary64_grid)
  have "\<bar>m\<bar> / ulpOf x = \<bar>of_int ?k\<bar> * (ulpOf m / ulpOf x)"
  proof -
    have "\<bar>m\<bar> = \<bar>of_int ?k * ulpOf m\<bar>" using g by simp
    then have "\<bar>m\<bar> = \<bar>of_int ?k\<bar> * ulpOf m" by (simp add: abs_mult)
    then show ?thesis by simp
  qed
  then have K: "\<bar>m\<bar> / ulpOf x = of_int ?K" unfolding ratio by simp
  have "\<bar>x\<bar> / ulpOf x \<le> \<bar>m\<bar> / ulpOf x" using assms(2) by (intro divide_right_mono) simp_all
  then have b: "\<bar>x / ulpOf x\<bar> \<le> of_int ?K" unfolding K by simp
  let ?j = "roundTiesToEven (x / ulpOf x)"
  have "x / ulpOf x \<le> of_int ?K" using b by linarith
  then have j1: "?j \<le> ?K" by (rule roundTiesToEven_le)
  have "- (of_int ?K :: rat) \<le> x / ulpOf x" using b by linarith
  then have "of_int (- ?K) \<le> x / ulpOf x" by (simp only: of_int_minus)
  then have j2: "- ?K \<le> ?j" by (rule roundTiesToEven_ge)
  have "\<bar>?j\<bar> \<le> ?K" using j1 j2 by linarith
  then have "(of_int \<bar>?j\<bar> :: rat) \<le> of_int ?K" by (simp only: of_int_le_iff)
  then have "of_int \<bar>?j\<bar> * ulpOf x \<le> (of_int ?K :: rat) * ulpOf x"
    by (intro mult_right_mono) simp_all
  also have "\<dots> = \<bar>m\<bar>" unfolding K[symmetric] by simp
  finally have r: "\<bar>of_int ?j * ulpOf x\<bar> \<le> \<bar>m\<bar>" by (simp add: abs_mult)
  then have "\<bar>of_int ?j * ulpOf x\<bar> < pow2 1024" using isBinary64_bound[OF assms(1)] by linarith
  then have nb: "\<not> pow2 1024 \<le> \<bar>of_int ?j * ulpOf x\<bar>" by (simp only: not_le)
  have "round64 x = Fin (of_int ?j * ulpOf x)"
    by (simp only: round64_unfold[OF False] nb if_False)
  then show ?thesis using r by blast
qed

lemma mod_js_sign:
  assumes b: "isBinary64 m" and m: "m \<noteq> 0"
    and u: "\<not> (- pow2 (- 1075) \<le> (n - m * of_int (js_truncate (n / m))) / m
              \<and> (n - m * of_int (js_truncate (n / m))) / m < 0)"
  shows "\<exists>y. mod_js (Fin n) (Fin m) = Fin y
           \<and> (0 < m \<longrightarrow> 0 \<le> y \<and> y \<le> m) \<and> (m < 0 \<longrightarrow> m \<le> y \<and> y \<le> 0)"
proof -
  let ?f = "n - m * of_int (floor (n / m))"
  have rng: "(0 < m \<longrightarrow> 0 \<le> ?f \<and> ?f < m) \<and> (m < 0 \<longrightarrow> m < ?f \<and> ?f \<le> 0)"
    using floored_range_pos[of m n] floored_range_neg[of m n] by blast
  then have ab: "\<bar>?f\<bar> \<le> \<bar>m\<bar>" using m by (cases "0 < m") auto
  from mod_js_floored_value[OF m u] show ?thesis
  proof
    assume "mod_js (Fin n) (Fin m) = Fin ?f"
    then show ?thesis using rng by (auto simp: less_imp_le)
  next
    assume r: "mod_js (Fin n) (Fin m) = round64 ?f"
    obtain y where y: "round64 ?f = Fin y" "\<bar>y\<bar> \<le> \<bar>m\<bar>"
      using round64_below_binary64[OF b ab] by blast
    have s: "(0 < m \<longrightarrow> 0 \<le> y) \<and> (m < 0 \<longrightarrow> y \<le> 0)"
      using rng round64_nonneg[of ?f] round64_nonpos[of ?f] y(1) m by (cases "0 < m") auto
    show ?thesis using r y s by (cases "0 < m") auto
  qed
qed

text \<open>On integers, with a modulus of magnitude at most \<open>2 ^ 53\<close>, nothing is rounded.\<close>

lemma mod_js_int:
  assumes m: "m \<noteq> 0" and b: "\<bar>m\<bar> \<le> 2 ^ 53"
  shows "mod_js (Fin (of_int n)) (Fin (of_int m)) = Fin (of_int (n mod m))"
proof -
  let ?n = "of_int n :: rat" and ?m = "of_int m :: rat"
  let ?t = "js_truncate (?n / ?m)"
  let ?r = "?n - ?m * of_int ?t"
  have m': "?m \<noteq> 0" using m by simp
  have fl: "?n - ?m * of_int (floor (?n / ?m)) = of_int (n mod m)"
    by (simp add: floor_divide_of_int_eq minus_mult_div_eq_mod flip: of_int_mult of_int_diff)
  have ex: "round64 (of_int (n mod m)) = Fin (of_int (n mod m))"
  proof (rule round64_of_int)
    have "\<bar>n mod m\<bar> < \<bar>m\<bar>" using m by (rule abs_mod_less)
    then show "\<bar>n mod m\<bar> \<le> 2 ^ 53" using b by linarith
  qed
  have u: "\<not> (- pow2 (- 1075) \<le> ?r / ?m \<and> ?r / ?m < 0)"
  proof
    assume a: "- pow2 (- 1075) \<le> ?r / ?m \<and> ?r / ?m < 0"
    let ?R = "n - m * ?t"
    have R: "?r = of_int ?R" by simp
    have "?r \<noteq> 0" using a by auto
    then have "(of_int ?R :: rat) \<noteq> 0" by (metis R)
    then have "?R \<noteq> 0" by (metis of_int_eq_0_iff)
    then have "1 \<le> \<bar>?R\<bar>" by linarith
    then have "(of_int 1 :: rat) \<le> of_int \<bar>?R\<bar>" by (simp only: of_int_le_iff)
    then have r1: "1 \<le> \<bar>?r\<bar>" unfolding R by simp
    have "(of_int \<bar>m\<bar> :: rat) \<le> of_int (2 ^ 53)" using b by (simp only: of_int_le_iff)
    then have m1: "\<bar>?m\<bar> \<le> pow2 53" by (simp add: pow2_def)
    have mp: "0 < \<bar>?m\<bar>" using m' by simp
    have "pow2 (- 53) = 1 / pow2 53" by (rule pow2_neg)
    also have "\<dots> \<le> 1 / \<bar>?m\<bar>" using m1 mp by (intro divide_left_mono) simp_all
    also have "\<dots> \<le> \<bar>?r\<bar> / \<bar>?m\<bar>" using r1 mp by (intro divide_right_mono) simp_all
    also have "\<dots> = \<bar>?r / ?m\<bar>" by simp
    finally have "pow2 (- 53) \<le> \<bar>?r / ?m\<bar>" .
    moreover have "pow2 (- 1075) < pow2 (- 53)" by (rule pow2_strict_mono) simp
    ultimately show False using a by linarith
  qed
  from mod_js_floored_value[OF m' u] show ?thesis unfolding fl ex by simp
qed

text \<open>A non-zero number below the least exponent is followed by the multiples of \<open>2 ^ -1074\<close>.\<close>

lemma ulpOf_subnormal:
  assumes "q \<noteq> 0" "\<bar>q\<bar> < pow2 (- 1022)"
  shows "ulpOf q = pow2 (- 1074)"
proof -
  have "0 < \<bar>q\<bar>" using assms(1) by simp
  then have "pow2 (binaryExponent \<bar>q\<bar>) \<le> \<bar>q\<bar>" by (rule binaryExponent_bounds)
  then have "pow2 (binaryExponent \<bar>q\<bar>) < pow2 (- 1022)" using assms(2) by linarith
  then have "binaryExponent \<bar>q\<bar> < - 1022" by (simp only: pow2_less_iff)
  then show ?thesis by (simp add: ulpOf_def)
qed

lemma isBinary64_least: "isBinary64 (- (1 / 2 ^ 1074))"
proof -
  let ?q = "- (1 / 2 ^ 1074) :: rat"
  have p: "pow2 (- 1074) = 1 / 2 ^ 1074" by (simp add: pow2_def)
  have "pow2 (- 1074) < pow2 (- 1022)" by (rule pow2_strict_mono) simp
  then have s: "\<bar>?q\<bar> < pow2 (- 1022)" unfolding p by simp
  have u: "ulpOf ?q = 1 / 2 ^ 1074" using ulpOf_subnormal[OF _ s] p by simp
  have e: "?q / ulpOf ?q = of_int (- 1)" unfolding u by simp
  have b: "\<bar>?q\<bar> < pow2 1024"
  proof -
    have "pow2 (- 1022) < pow2 1024" by (rule pow2_strict_mono) simp
    then show ?thesis using s by linarith
  qed
  have n: "?q \<noteq> 0" by simp
  have "round64 ?q = Fin ?q" using n e b by (rule round64_exact)
  then show ?thesis by (simp only: isBinary64_def)
qed

lemma mod_js_underflow: "mod_js (Fin (- (1 / 2 ^ 1074))) (Fin 5) = Fin (- (1 / 2 ^ 1074))"
proof -
  let ?n = "- (1 / 2 ^ 1074) :: rat"
  have "- 1 < ?n / 5" "?n / 5 < 0" by simp_all
  then have "ceiling (?n / 5) = 0" by (simp add: ceiling_eq_iff)
  then have t: "js_truncate (?n / 5) = 0" by (simp add: js_truncate_ceiling)
  have "pow2 (- 1075) = 1 / 2 ^ 1075" by (simp add: pow2_def)
  then have "\<not> ?n / 5 < - pow2 (- 1075)" by simp
  then show ?thesis using mod_js_unfold[of 5 ?n] t by (simp add: Let_def)
qed

lemma isBinary64_of_int: "\<bar>k\<bar> \<le> 2 ^ 53 \<Longrightarrow> isBinary64 (of_int k)"
  by (simp only: isBinary64_def round64_of_int)

text \<open>
  Claim C5, as the code has it. For every finite \<open>n\<close> and every binary64 modulus \<open>m\<close> other than
  zero, when the quotient of the remainder \<^verbatim>\<open>n % m\<close> by \<open>m\<close> is not a negative number from
  \<open>- 2 ^ -1075\<close> on, which binary64 rounds to zero, the result of \<open>mod\<close> is finite and is zero or
  has the sign of \<open>m\<close>, from \<open>0\<close> to \<open>m\<close>, where the remainder \<^verbatim>\<open>%\<close> has the sign of \<open>n\<close>. For
  integers, with a modulus of magnitude at most \<open>2 ^ 53\<close>, it is the floored modulo.
  \<^verbatim>\<open>mod(-1, 3) = 2\<close>, \<^verbatim>\<open>mod(1, -3) = -2\<close> and \<^verbatim>\<open>mod(5, 5) = 0\<close>. A finite \<open>n\<close> is returned as it is
  under an infinite modulus, and \<^verbatim>\<open>NaN\<close> is returned for an \<open>n\<close> that is \<^verbatim>\<open>NaN\<close> or infinite.
\<close>

theorem mod_js_floored:
  "(isBinary64 m \<and> m \<noteq> 0 \<and> js_rem (Fin n) (Fin m) = Fin r
      \<and> \<not> (- pow2 (- 1075) \<le> r / m \<and> r / m < 0) \<longrightarrow>
      (\<exists>y. mod_js (Fin n) (Fin m) = Fin y
           \<and> (0 < m \<longrightarrow> 0 \<le> y \<and> y \<le> m) \<and> (m < 0 \<longrightarrow> m \<le> y \<and> y \<le> 0)))
   \<and> (k \<noteq> 0 \<and> \<bar>k\<bar> \<le> 2 ^ 53 \<longrightarrow>
        mod_js (Fin (of_int i)) (Fin (of_int k)) = Fin (of_int (i mod k)))
   \<and> mod_js (Fin (- 1)) (Fin 3) = Fin 2 \<and> js_rem (Fin (- 1)) (Fin 3) = Fin (- 1)
   \<and> mod_js (Fin 1) (Fin (- 3)) = Fin (- 2)
   \<and> mod_js (Fin 5) (Fin 5) = Fin 0
   \<and> mod_js (Fin n) PInf = Fin n \<and> mod_js (Fin n) NInf = Fin n
   \<and> mod_js NaN d = NaN \<and> mod_js PInf d = NaN \<and> mod_js NInf d = NaN"
proof -
  have s: "isBinary64 m \<Longrightarrow> m \<noteq> 0 \<Longrightarrow> js_rem (Fin n) (Fin m) = Fin r
      \<Longrightarrow> \<not> (- pow2 (- 1075) \<le> r / m \<and> r / m < 0)
      \<Longrightarrow> \<exists>y. mod_js (Fin n) (Fin m) = Fin y
           \<and> (0 < m \<longrightarrow> 0 \<le> y \<and> y \<le> m) \<and> (m < 0 \<longrightarrow> m \<le> y \<and> y \<le> 0)"
  proof -
    assume a: "isBinary64 m" "m \<noteq> 0" "js_rem (Fin n) (Fin m) = Fin r"
      "\<not> (- pow2 (- 1075) \<le> r / m \<and> r / m < 0)"
    have "r = n - m * of_int (js_truncate (n / m))" using a(2,3) by simp
    then show ?thesis using mod_js_sign[OF a(1,2), of n] a(4) by simp
  qed
  have e1: "mod_js (Fin (- 1)) (Fin 3) = Fin 2"
    using mod_js_int[of 3 "- 1"] by simp
  have e2: "mod_js (Fin 1) (Fin (- 3)) = Fin (- 2)"
    using mod_js_int[of "- 3" 1] by simp
  have e3: "mod_js (Fin 5) (Fin 5) = Fin 0"
    using mod_js_int[of 5 5] by simp
  have "js_truncate (- 1 / 3) = 0" by code_simp
  then have e4: "js_rem (Fin (- 1)) (Fin 3) = Fin (- 1)"
    by simp
  have i: "mod_js (Fin n) PInf = Fin n" "mod_js (Fin n) NInf = Fin n"
    by (simp_all add: mod_js_def)
  have j: "mod_js NaN d = NaN" "mod_js PInf d = NaN" "mod_js NInf d = NaN"
    by (cases d; simp add: mod_js_def)+
  show ?thesis
    using s e1 e2 e3 e4 i j mod_js_int[of k i]
    by (simp only: simp_thms) blast
qed

text \<open>
  The theorem at \<^verbatim>\<open>mod(-3.5, 3) = 2.5\<close>, where the remainder is \<open>-0.5\<close> and the quotient \<open>-1/6\<close>,
  and at the integers \<open>-7\<close> and \<open>3\<close>.
\<close>

theorem mod_js_floored_witness:
  "isBinary64 3 \<and> (3::rat) \<noteq> 0 \<and> js_rem (Fin (- 7 / 2)) (Fin 3) = Fin (- 1 / 2)
   \<and> (- 1 / 2) / (3::rat) < - pow2 (- 1075)
   \<and> mod_js (Fin (- 7 / 2)) (Fin 3) = Fin (5 / 2)
   \<and> (3::int) \<noteq> 0 \<and> \<bar>3::int\<bar> \<le> 2 ^ 53
   \<and> mod_js (Fin (- 7)) (Fin 3) = Fin 2"
proof -
  have t: "js_truncate (- 7 / 2 / 3) = - 1" by code_simp
  then have r: "js_rem (Fin (- 7 / 2)) (Fin 3) = Fin (- 1 / 2)" by simp
  have b: "isBinary64 3" using isBinary64_of_int[of 3] by simp
  have "pow2 (- 1075) < pow2 (- 3)" by (rule pow2_strict_mono) simp
  then have q: "(- 1 / 2) / (3::rat) < - pow2 (- 1075)" by (simp add: pow2_def)
  have f: "round64 (5 / 2) = Fin (5 / 2)" by code_simp
  have v: "mod_js (Fin (- 7 / 2)) (Fin 3) = Fin (5 / 2)"
    using mod_js_unfold[of 3 "- 7 / 2"] t q f by (simp add: Let_def)
  show ?thesis
    using mod_js_floored [of 3 "- 7 / 2" "- 1 / 2" 3 "- 7" NaN] r b q v
    by simp
qed

text \<open>
  Claim C5 as it is worded, for every \<open>n\<close> and every nonzero modulus, fails in two places.
  Under an infinite modulus, \<^verbatim>\<open>mod(-5, Infinity)\<close> is \<open>-5\<close>, negative under a positive modulus,
  and a \<^verbatim>\<open>NaN\<close> or infinite \<open>n\<close> gives \<^verbatim>\<open>NaN\<close>. On finite numbers, the least negative binary64
  value \<open>- 2 ^ -1074\<close> is its own remainder by \<open>5\<close>; the quotient by \<open>5\<close> rounds to zero, which
  is not below zero, and \<open>mod\<close> returns that negative number under the modulus \<open>5\<close>.
\<close>

theorem mod_js_sign_counterexample:
  "mod_js (Fin (- 5)) PInf = Fin (- 5) \<and> js_lt (Fin (- 5)) (Fin 0) \<and> js_lt (Fin 0) PInf
   \<and> isBinary64 (- (1 / 2 ^ 1074)) \<and> isBinary64 5
   \<and> mod_js (Fin (- (1 / 2 ^ 1074))) (Fin 5) = Fin (- (1 / 2 ^ 1074))
   \<and> js_lt (Fin (- (1 / 2 ^ 1074))) (Fin 0) \<and> js_lt (Fin 0) (Fin 5)
   \<and> mod_js NaN (Fin 3) = NaN \<and> mod_js PInf (Fin 3) = NaN"
proof -
  have a: "mod_js (Fin (- 5)) PInf = Fin (- 5)" "mod_js NaN (Fin 3) = NaN"
    "mod_js PInf (Fin 3) = NaN"
    by (simp_all add: mod_js_def)
  have b: "isBinary64 5" using isBinary64_of_int[of 5] by simp
  have c: "js_lt (Fin (- 5)) (Fin 0)" "js_lt (Fin 0) PInf" "js_lt (Fin 0) (Fin 5)"
    "js_lt (Fin (- (1 / 2 ^ 1074))) (Fin 0)"
    by simp_all
  show ?thesis
    using a b c isBinary64_least mod_js_underflow by (simp only: simp_thms)
qed

section \<open>Properties of the suspension primitives\<close>

text \<open>
  Claim C6. A wait on a promise that is rejected sets the status of the waiting thread back to
  \<^verbatim>\<open>STATUS_RUNNING\<close>, hands \<^verbatim>\<open>undefined\<close> to the resumption as a value, not as a thrown error, and
  passes the rejection to \<^verbatim>\<open>log.warn\<close>; a wait on a promise that is resolved sets the status to
  \<^verbatim>\<open>STATUS_RUNNING\<close> too and hands over the resolved value. Before the promise settles the
  generator has set \<^verbatim>\<open>STATUS_PROMISE_WAIT\<close> and yielded.
\<close>

theorem waitPromise_settles:
  "waitPromise th logged (Rejected e) =
     (Return (Inr JUndefined),
      \<lparr>waiter = th\<lparr>status := STATUS_RUNNING\<rparr>, returnValue = JUndefined, warnings = logged @ [e]\<rparr>)
   \<and> waitPromise th logged (Resolved v) =
     (Return (Inr v),
      \<lparr>waiter = th\<lparr>status := STATUS_RUNNING\<rparr>, returnValue = v, warnings = logged\<rparr>)
   \<and> fst (waitPromise_start th logged) = Yield
   \<and> status (waiter (snd (waitPromise_start th logged))) = STATUS_PROMISE_WAIT
   \<and> warnings (snd (waitPromise_start th logged)) = logged"
  by (simp add: waitPromise_def waitPromise_start_def waitPromise_resume_def)

text \<open>The theorem at a promise rejected with \<^verbatim>\<open>"boom"\<close> and at one resolved with \<open>7\<close>.\<close>

theorem waitPromise_settles_witness:
  "waitPromise \<lparr>status = STATUS_RUNNING, warp = 1\<rparr> [] (Rejected (JStr ''boom'')) =
     (Return (Inr JUndefined),
      \<lparr>waiter = \<lparr>status = STATUS_RUNNING, warp = 1\<rparr>, returnValue = JUndefined,
        warnings = [JStr ''boom'']\<rparr>)
   \<and> waitPromise \<lparr>status = STATUS_RUNNING, warp = 1\<rparr> [] (Resolved (JNum (Fin 7))) =
     (Return (Inr (JNum (Fin 7))),
      \<lparr>waiter = \<lparr>status = STATUS_RUNNING, warp = 1\<rparr>, returnValue = JNum (Fin 7),
        warnings = []\<rparr>)"
  using waitPromise_settles [of "\<lparr>status = STATUS_RUNNING, warp = 1\<rparr>" "[]" "JStr ''boom''" "JNum (Fin 7)"]
  by simp








section \<open>Properties of the compatibility layer\<close>

lemma yieldStep_warp: "warp (fst (snd (yieldStep th c e))) = warp th"
  by (simp add: yieldStep_def Let_def split: prod.splits)

lemma yieldStep_YIELD:
  assumes "status th = STATUS_YIELD"
  shows "status (fst (snd (yieldStep th c e))) = STATUS_RUNNING"
    and "fst (yieldStep th c e) = [Suspend] \<longleftrightarrow> warp th = 0 \<or> (c + 1 = 10 \<and> 500 < e)"
    and "fst (yieldStep th c e) = [] \<longleftrightarrow> \<not> (warp th = 0 \<or> (c + 1 = 10 \<and> 500 < e))"
  using assms by (auto simp: yieldStep_def isStuck_def Let_def split: prod.splits)

lemma yieldStep_YIELD_TICK:
  "status th = STATUS_YIELD_TICK \<Longrightarrow> yieldStep th c e = ([Suspend], th, c)"
  by (simp add: yieldStep_def)

lemma compatLoop_done:
  "status th \<noteq> STATUS_YIELD \<Longrightarrow> status th \<noteq> STATUS_YIELD_TICK \<Longrightarrow>
     compatLoop th c rv bs = ([], Returned rv, th, c)"
  by (cases bs) auto

lemma compatLoop_step:
  assumes "status th = STATUS_YIELD \<or> status th = STATUS_YIELD_TICK"
  shows "compatLoop th c rv (b # bs) =
     (let evs = fst (yieldStep th c (timeElapsed b));
          th2 = (fst (snd (yieldStep th c (timeElapsed b))))\<lparr>status := statusAfter b\<rparr>;
          c1 = snd (snd (yieldStep th c (timeElapsed b)))
      in case returned b of
           Promise p \<Rightarrow> (evs @ [Invoke], Awaiting p, th2, c1)
         | Plain v \<Rightarrow> (evs @ [Invoke] @ fst (compatLoop th2 c1 v bs), snd (compatLoop th2 c1 v bs)))"
  using assms by (auto simp: Let_def split: prod.splits block_result.splits)

lemma compatLoop_last:
  assumes "status th = STATUS_YIELD \<or> status th = STATUS_YIELD_TICK" "\<not> yielding fin"
  shows "fst (compatLoop th c rv (fin # post)) = fst (yieldStep th c (timeElapsed fin)) @ [Invoke]"
    and "fst (snd (compatLoop th c rv (fin # post))) = finish fin"
proof -
  show "fst (compatLoop th c rv (fin # post)) = fst (yieldStep th c (timeElapsed fin)) @ [Invoke]"
  proof (cases "returned fin")
    case (Plain v)
    then have "statusAfter fin \<noteq> STATUS_YIELD" "statusAfter fin \<noteq> STATUS_YIELD_TICK"
      using assms(2) by (auto simp: yielding_def)
    then show ?thesis using Plain assms(1)
      by (simp add: compatLoop_step compatLoop_done Let_def del: compatLoop.simps)
  next
    case (Promise p)
    then show ?thesis using assms(1)
      by (simp add: compatLoop_step Let_def del: compatLoop.simps)
  qed
  show "fst (snd (compatLoop th c rv (fin # post))) = finish fin"
  proof (cases "returned fin")
    case (Plain v)
    then have "statusAfter fin \<noteq> STATUS_YIELD" "statusAfter fin \<noteq> STATUS_YIELD_TICK"
      using assms(2) by (auto simp: yielding_def)
    then show ?thesis using Plain assms(1)
      by (simp add: compatLoop_step compatLoop_done Let_def finish_def del: compatLoop.simps)
  next
    case (Promise p)
    then show ?thesis using assms(1)
      by (simp add: compatLoop_step Let_def finish_def del: compatLoop.simps)
  qed
qed

lemma compatLoop_runs:
  assumes "status th = STATUS_YIELD \<or> status th = STATUS_YIELD_TICK"
    "list_all yielding pre" "\<not> yielding fin"
  shows "fst (snd (compatLoop th c rv (pre @ fin # post))) = finish fin
     \<and> count_list (fst (compatLoop th c rv (pre @ fin # post))) Invoke = length pre + 1"
  using assms
proof (induction pre arbitrary: th c rv)
  case Nil
  have "count_list (fst (yieldStep th c (timeElapsed fin))) Invoke = 0"
    by (auto simp: yieldStep_def isStuck_def Let_def split: prod.splits)
  then show ?case using compatLoop_last[OF Nil(1) Nil(3)] by simp
next
  case (Cons b pre)
  from Cons.prems(2) obtain v where v: "returned b = Plain v"
    and st: "statusAfter b = STATUS_YIELD \<or> statusAfter b = STATUS_YIELD_TICK"
    by (auto simp: yielding_def split: block_result.splits)
  let ?th2 = "(fst (snd (yieldStep th c (timeElapsed b))))\<lparr>status := statusAfter b\<rparr>"
  let ?c1 = "snd (snd (yieldStep th c (timeElapsed b)))"
  have ih: "fst (snd (compatLoop ?th2 ?c1 v (pre @ fin # post))) = finish fin
     \<and> count_list (fst (compatLoop ?th2 ?c1 v (pre @ fin # post))) Invoke = length pre + 1"
    using Cons.IH[of ?th2 ?c1 v] st Cons.prems by simp
  have z: "count_list (fst (yieldStep th c (timeElapsed b))) Invoke = 0"
    by (auto simp: yieldStep_def isStuck_def Let_def split: prod.splits)
  show ?case using ih z v Cons.prems(1)
    by (simp add: compatLoop_step Let_def del: compatLoop.simps)
qed

lemma compatLoop_unfinished:
  assumes "status th = STATUS_YIELD \<or> status th = STATUS_YIELD_TICK" "list_all yielding bs"
  shows "fst (snd (compatLoop th c rv bs)) = Unfinished"
  using assms
proof (induction bs arbitrary: th c rv)
  case Nil
  then show ?case by auto
next
  case (Cons b bs)
  from Cons.prems(2) obtain v where v: "returned b = Plain v"
    and st: "statusAfter b = STATUS_YIELD \<or> statusAfter b = STATUS_YIELD_TICK"
    by (auto simp: yielding_def split: block_result.splits)
  let ?th2 = "(fst (snd (yieldStep th c (timeElapsed b))))\<lparr>status := statusAfter b\<rparr>"
  let ?c1 = "snd (snd (yieldStep th c (timeElapsed b)))"
  have "fst (snd (compatLoop ?th2 ?c1 v bs)) = Unfinished"
    using Cons.IH[of ?th2 ?c1 v] st Cons.prems by simp
  then show ?case using v Cons.prems(1)
    by (simp add: compatLoop_step Let_def del: compatLoop.simps)
qed

lemma compatLoop_warp_no_suspend:
  assumes "0 < warp th" "status th \<noteq> STATUS_YIELD_TICK"
    "\<forall>x\<in>set bs. statusAfter x \<noteq> STATUS_YIELD_TICK \<and> timeElapsed x \<le> 500"
  shows "Suspend \<notin> set (fst (compatLoop th c rv bs))"
  using assms
proof (induction bs arbitrary: th c rv)
  case Nil
  then show ?case by auto
next
  case (Cons b bs)
  show ?case
  proof (cases "status th = STATUS_YIELD")
    case False
    then show ?thesis using Cons.prems(2) by (simp add: compatLoop_done del: compatLoop.simps)
  next
    case True
    let ?th2 = "(fst (snd (yieldStep th c (timeElapsed b))))\<lparr>status := statusAfter b\<rparr>"
    let ?c1 = "snd (snd (yieldStep th c (timeElapsed b)))"
    have e: "fst (yieldStep th c (timeElapsed b)) = []"
      using yieldStep_YIELD(3)[OF True, of c "timeElapsed b"] Cons.prems(1,3) by auto
    have w: "0 < warp ?th2" using yieldStep_warp[of th c "timeElapsed b"] Cons.prems(1) by simp
    have "Suspend \<notin> set (fst (compatLoop ?th2 ?c1 rv' bs))" for rv'
      using Cons.IH[of ?th2 ?c1 rv'] w Cons.prems(3) by simp
    then show ?thesis using True e
      by (simp add: compatLoop_step Let_def del: compatLoop.simps split: block_result.splits)
  qed
qed

lemma compatLoop_once_per_pass:
  assumes "status th = STATUS_YIELD \<or> status th = STATUS_YIELD_TICK"
    "list_all yielding pre" "\<not> yielding fin"
    "warp th = 0 \<or> (status th = STATUS_YIELD_TICK \<and> (\<forall>x\<in>set pre. statusAfter x = STATUS_YIELD_TICK))"
  shows "fst (compatLoop th c rv (pre @ fin # post)) =
           concat (replicate (length pre + 1) [Suspend, Invoke])"
  using assms
proof (induction pre arbitrary: th c rv)
  case Nil
  have "fst (yieldStep th c (timeElapsed fin)) = [Suspend]"
    using Nil(1,4) yieldStep_YIELD(2)[of th c "timeElapsed fin"] yieldStep_YIELD_TICK[of th c "timeElapsed fin"]
    by auto
  then show ?case using compatLoop_last(1)[OF Nil(1) Nil(3)] by simp
next
  case (Cons b pre)
  from Cons.prems(2) obtain v where v: "returned b = Plain v"
    and st: "statusAfter b = STATUS_YIELD \<or> statusAfter b = STATUS_YIELD_TICK"
    by (auto simp: yielding_def split: block_result.splits)
  let ?th2 = "(fst (snd (yieldStep th c (timeElapsed b))))\<lparr>status := statusAfter b\<rparr>"
  let ?c1 = "snd (snd (yieldStep th c (timeElapsed b)))"
  have s: "fst (yieldStep th c (timeElapsed b)) = [Suspend]"
    using Cons.prems(1,4) yieldStep_YIELD(2)[of th c "timeElapsed b"] yieldStep_YIELD_TICK[of th c "timeElapsed b"]
    by auto
  have w: "warp ?th2 = 0 \<or> (status ?th2 = STATUS_YIELD_TICK \<and> (\<forall>x\<in>set pre. statusAfter x = STATUS_YIELD_TICK))"
    using Cons.prems(4) yieldStep_warp[of th c "timeElapsed b"] by auto
  have "fst (compatLoop ?th2 ?c1 v (pre @ fin # post)) = concat (replicate (length pre + 1) [Suspend, Invoke])"
    using Cons.IH[of ?th2 ?c1 v] st w Cons.prems(2,3) by simp
  then show ?case using s v Cons.prems(1)
    by (simp add: compatLoop_step Let_def del: compatLoop.simps)
qed

lemma exec_unfold:
  "executeInCompatibilityLayer th c b bs =
     (case returned b of
        Promise p \<Rightarrow> ([Invoke], Awaiting p, th\<lparr>status := statusAfter b\<rparr>, c)
      | Plain v \<Rightarrow>
          (Invoke # fst (compatLoop (th\<lparr>status := statusAfter b\<rparr>) c v bs),
           snd (compatLoop (th\<lparr>status := statusAfter b\<rparr>) c v bs)))"
  by (simp add: executeInCompatibilityLayer_def Let_def split: block_result.splits prod.splits)

lemma exec_final:
  assumes "\<not> yielding b"
  shows "fst (executeInCompatibilityLayer th c b bs) = [Invoke]"
    and "fst (snd (executeInCompatibilityLayer th c b bs)) = finish b"
  using assms
  by (auto simp: exec_unfold yielding_def finish_def compatLoop_done split: block_result.splits)

lemma exec_runs:
  assumes "yielding b" "list_all yielding pre" "\<not> yielding fin"
  shows "fst (snd (executeInCompatibilityLayer th c b (pre @ fin # post))) = finish fin"
    and "count_list (fst (executeInCompatibilityLayer th c b (pre @ fin # post))) Invoke = length pre + 2"
proof -
  from assms(1) obtain v where v: "returned b = Plain v"
    and st: "statusAfter b = STATUS_YIELD \<or> statusAfter b = STATUS_YIELD_TICK"
    by (auto simp: yielding_def split: block_result.splits)
  have s: "status (th\<lparr>status := statusAfter b\<rparr>) = STATUS_YIELD
      \<or> status (th\<lparr>status := statusAfter b\<rparr>) = STATUS_YIELD_TICK" using st by simp
  note r = compatLoop_runs[OF s assms(2,3), of c v post]
  show "fst (snd (executeInCompatibilityLayer th c b (pre @ fin # post))) = finish fin"
    using r v by (simp add: exec_unfold)
  show "count_list (fst (executeInCompatibilityLayer th c b (pre @ fin # post))) Invoke = length pre + 2"
    using r v by (simp add: exec_unfold)
qed

lemma exec_unfinished:
  assumes "yielding b" "list_all yielding bs"
  shows "fst (snd (executeInCompatibilityLayer th c b bs)) = Unfinished"
proof -
  from assms(1) obtain v where v: "returned b = Plain v"
    and st: "statusAfter b = STATUS_YIELD \<or> statusAfter b = STATUS_YIELD_TICK"
    by (auto simp: yielding_def split: block_result.splits)
  have s: "status (th\<lparr>status := statusAfter b\<rparr>) = STATUS_YIELD
      \<or> status (th\<lparr>status := statusAfter b\<rparr>) = STATUS_YIELD_TICK" using st by simp
  show ?thesis using compatLoop_unfinished[OF s assms(2), of c v] v by (simp add: exec_unfold)
qed

lemma exec_warp_no_suspend:
  assumes "0 < warp th" "statusAfter b \<noteq> STATUS_YIELD_TICK"
    "\<forall>x\<in>set bs. statusAfter x \<noteq> STATUS_YIELD_TICK \<and> timeElapsed x \<le> 500"
  shows "Suspend \<notin> set (fst (executeInCompatibilityLayer th c b bs))"
proof -
  have "Suspend \<notin> set (fst (compatLoop (th\<lparr>status := statusAfter b\<rparr>) c v bs))" for v
    using compatLoop_warp_no_suspend[of "th\<lparr>status := statusAfter b\<rparr>" bs c v] assms by simp
  then show ?thesis by (simp add: exec_unfold split: block_result.splits)
qed

lemma exec_once_per_pass:
  assumes "yielding b" "list_all yielding pre" "\<not> yielding fin"
    "warp th = 0 \<or> (statusAfter b = STATUS_YIELD_TICK \<and> (\<forall>x\<in>set pre. statusAfter x = STATUS_YIELD_TICK))"
  shows "fst (executeInCompatibilityLayer th c b (pre @ fin # post)) =
           Invoke # concat (replicate (length pre + 1) [Suspend, Invoke])"
proof -
  from assms(1) obtain v where v: "returned b = Plain v"
    and st: "statusAfter b = STATUS_YIELD \<or> statusAfter b = STATUS_YIELD_TICK"
    by (auto simp: yielding_def split: block_result.splits)
  have s: "status (th\<lparr>status := statusAfter b\<rparr>) = STATUS_YIELD
      \<or> status (th\<lparr>status := statusAfter b\<rparr>) = STATUS_YIELD_TICK" using st by simp
  have w: "warp (th\<lparr>status := statusAfter b\<rparr>) = 0 \<or> (status (th\<lparr>status := statusAfter b\<rparr>) = STATUS_YIELD_TICK
      \<and> (\<forall>x\<in>set pre. statusAfter x = STATUS_YIELD_TICK))" using assms(4) by simp
  show ?thesis using compatLoop_once_per_pass[OF s assms(2,3) w, of c v post] v
    by (simp add: exec_unfold)
qed

text \<open>
  Claim C3. In a pass of the loop with the status \<^verbatim>\<open>STATUS_YIELD\<close>, the status is set back to
  \<^verbatim>\<open>STATUS_RUNNING\<close> and the generator suspends exactly when \<^verbatim>\<open>thread.warp\<close> is \<open>0\<close> or
  \<open>isStuck\<close> answers true, which it does on its tenth call when more than 500 ms have elapsed;
  with a positive warp and no such answer the primitive is called again without a suspension.
  In a pass with the status \<^verbatim>\<open>STATUS_YIELD_TICK\<close> the generator suspends once, whatever the warp.
  The loop goes on as long as the calls yield and ends at the first call that returns a promise,
  which is handed to \<open>waitPromise\<close>, or leaves another status, whose value is returned; the
  primitive is called once more than there are passes. Under a positive warp, with no
  \<^verbatim>\<open>STATUS_YIELD_TICK\<close> and no reading above 500 ms, nothing suspends; under a warp of \<open>0\<close>, or
  with \<^verbatim>\<open>STATUS_YIELD_TICK\<close> throughout, every pass suspends once.
\<close>

theorem compatibility_loop_policy:
  "(status th = STATUS_YIELD \<longrightarrow>
      status (fst (snd (yieldStep th c e))) = STATUS_RUNNING
      \<and> (fst (yieldStep th c e) = [Suspend] \<longleftrightarrow> warp th = 0 \<or> fst (isStuck e c))
      \<and> (fst (yieldStep th c e) = [] \<longleftrightarrow> 0 < warp th \<and> \<not> fst (isStuck e c)))
   \<and> (fst (isStuck e c) \<longleftrightarrow> c + 1 = 10 \<and> 500 < e)
   \<and> (status th = STATUS_YIELD_TICK \<longrightarrow> yieldStep th c e = ([Suspend], th, c))
   \<and> (\<not> yielding b \<longrightarrow>
        fst (executeInCompatibilityLayer th c b bs) = [Invoke]
        \<and> fst (snd (executeInCompatibilityLayer th c b bs)) = finish b)
   \<and> (yielding b \<and> list_all yielding pre \<and> \<not> yielding fin \<longrightarrow>
        fst (snd (executeInCompatibilityLayer th c b (pre @ fin # post))) = finish fin
        \<and> count_list (fst (executeInCompatibilityLayer th c b (pre @ fin # post))) Invoke
            = length pre + 2)
   \<and> (yielding b \<and> list_all yielding bs \<longrightarrow>
        fst (snd (executeInCompatibilityLayer th c b bs)) = Unfinished)
   \<and> (returned fin = Promise p \<longrightarrow> \<not> yielding fin \<and> finish fin = Awaiting p)
   \<and> (0 < warp th \<and> statusAfter b \<noteq> STATUS_YIELD_TICK
        \<and> (\<forall>x\<in>set bs. statusAfter x \<noteq> STATUS_YIELD_TICK \<and> timeElapsed x \<le> 500) \<longrightarrow>
        Suspend \<notin> set (fst (executeInCompatibilityLayer th c b bs)))
   \<and> (yielding b \<and> list_all yielding pre \<and> \<not> yielding fin
        \<and> (warp th = 0
            \<or> (statusAfter b = STATUS_YIELD_TICK \<and> (\<forall>x\<in>set pre. statusAfter x = STATUS_YIELD_TICK))) \<longrightarrow>
        fst (executeInCompatibilityLayer th c b (pre @ fin # post))
          = Invoke # concat (replicate (length pre + 1) [Suspend, Invoke]))"
proof -
  have s: "fst (isStuck e c) \<longleftrightarrow> c + 1 = 10 \<and> 500 < e"
    by (simp add: isStuck_def Let_def)
  have y: "status th = STATUS_YIELD \<Longrightarrow>
      status (fst (snd (yieldStep th c e))) = STATUS_RUNNING
      \<and> (fst (yieldStep th c e) = [Suspend] \<longleftrightarrow> warp th = 0 \<or> fst (isStuck e c))
      \<and> (fst (yieldStep th c e) = [] \<longleftrightarrow> 0 < warp th \<and> \<not> fst (isStuck e c))"
    using yieldStep_YIELD[of th c e] s by auto
  have p: "returned fin = Promise p \<Longrightarrow> \<not> yielding fin \<and> finish fin = Awaiting p"
    by (simp add: yielding_def finish_def)
  show ?thesis
    using y s p yieldStep_YIELD_TICK[of th c e] exec_final[of b th c bs]
      exec_runs[of b pre fin th c post] exec_unfinished[of b bs th c]
      exec_warp_no_suspend[of th b bs c] exec_once_per_pass[of b pre fin th c post]
    by blast
qed

text \<open>
  The theorem on a thread in warp mode whose primitive yields, then yields for a tick, then
  returns \<open>7\<close>: no suspension in the first pass, one in the second. And the tenth call of
  \<open>isStuck\<close> at 501 ms and at 500 ms.
\<close>

theorem compatibility_loop_policy_witness:
  "yielding \<lparr>timeElapsed = 0, returned = Plain JUndefined, statusAfter = STATUS_YIELD\<rparr>
   \<and> list_all yielding [\<lparr>timeElapsed = 900, returned = Plain JUndefined, statusAfter = STATUS_YIELD_TICK\<rparr>]
   \<and> \<not> yielding \<lparr>timeElapsed = 900, returned = Plain (JNum (Fin 7)), statusAfter = STATUS_RUNNING\<rparr>
   \<and> executeInCompatibilityLayer \<lparr>status = STATUS_RUNNING, warp = 1\<rparr> 0
        \<lparr>timeElapsed = 0, returned = Plain JUndefined, statusAfter = STATUS_YIELD\<rparr>
        [\<lparr>timeElapsed = 900, returned = Plain JUndefined, statusAfter = STATUS_YIELD_TICK\<rparr>,
         \<lparr>timeElapsed = 900, returned = Plain (JNum (Fin 7)), statusAfter = STATUS_RUNNING\<rparr>]
       = ([Invoke, Invoke, Suspend, Invoke], Returned (JNum (Fin 7)),
          \<lparr>status = STATUS_RUNNING, warp = 1\<rparr>, 1)
   \<and> yieldStep \<lparr>status = STATUS_YIELD, warp = 1\<rparr> 9 501
       = ([Suspend], \<lparr>status = STATUS_RUNNING, warp = 1\<rparr>, 0)
   \<and> yieldStep \<lparr>status = STATUS_YIELD, warp = 1\<rparr> 9 500
       = ([], \<lparr>status = STATUS_RUNNING, warp = 1\<rparr>, 0)
   \<and> yieldStep \<lparr>status = STATUS_YIELD_TICK, warp = 1\<rparr> 3 0
       = ([Suspend], \<lparr>status = STATUS_YIELD_TICK, warp = 1\<rparr>, 3)"
proof -
  let ?b = "\<lparr>timeElapsed = 0, returned = Plain JUndefined, statusAfter = STATUS_YIELD\<rparr>"
  let ?p = "\<lparr>timeElapsed = 900, returned = Plain JUndefined, statusAfter = STATUS_YIELD_TICK\<rparr>"
  let ?f = "\<lparr>timeElapsed = 900, returned = Plain (JNum (Fin 7)), statusAfter = STATUS_RUNNING\<rparr>"
  have e: "executeInCompatibilityLayer \<lparr>status = STATUS_RUNNING, warp = 1\<rparr> 0 ?b [?p, ?f]
       = ([Invoke, Invoke, Suspend, Invoke], Returned (JNum (Fin 7)),
          \<lparr>status = STATUS_RUNNING, warp = 1\<rparr>, 1)"
    by (simp add: executeInCompatibilityLayer_def yieldStep_def isStuck_def)
  have y: "yieldStep \<lparr>status = STATUS_YIELD, warp = 1\<rparr> 9 501
       = ([Suspend], \<lparr>status = STATUS_RUNNING, warp = 1\<rparr>, 0)"
    "yieldStep \<lparr>status = STATUS_YIELD, warp = 1\<rparr> 9 500
       = ([], \<lparr>status = STATUS_RUNNING, warp = 1\<rparr>, 0)"
    by (simp_all add: yieldStep_def isStuck_def)
  show ?thesis
    using compatibility_loop_policy
      [of "\<lparr>status = STATUS_YIELD_TICK, warp = 1\<rparr>" 3 0 ?b "[?p, ?f]" "[?p]" ?f "[]" 0] e y
    by (simp add: yielding_def)
qed

end
